theory Spec2Isabelle
  imports
    Complex_Main
    "HOL-Library.Sublist"
    "HOL-Library.Extended_Nat"
begin

section \<open>Data model\<close>

text \<open>
  JavaScript strings are modelled as \<^typ>\<open>string\<close>: a list of characters, each
  character standing for one code unit below 256. Tokens are strings; \<open>===\<close> on two
  tokens is equality of the lists.

  The repository holds two implementations side by side: a library (the classes
  \<open>Tokenizer\<close>, \<open>MinHashLSH\<close>, \<open>Clusterer\<close>, \<open>PatternExtractor\<close>, \<open>JSONLStorage\<close> with
  \<open>loadJSONL\<close>, and \<open>CodeCollage\<close>), and the command line tree under \<open>src/\<close> (the classes
  \<open>CodeTokenizer\<close>, \<open>MinHashClusterer\<close>, \<open>JSONLStorage\<close> with \<open>readSnippets\<close>, and the
  commands). Each has its own record types; both are modelled.
\<close>

type_synonym token = string

text \<open>
  The library's \<open>Config\<close>. The band count, the row count and the n-gram size are
  natural numbers; the two thresholds are exact rationals (the source's doubles
  \<open>0.8\<close> and \<open>0.7\<close> are \<open>4/5\<close> and \<open>7/10\<close>).
\<close>

record Config =
  minHashBands :: nat
  minHashRows :: nat
  ngramSize :: nat
  similarityThreshold :: rat
  clusterThreshold :: rat

definition DEFAULT_CONFIG :: Config where
  "DEFAULT_CONFIG = \<lparr> minHashBands = 20, minHashRows = 5, ngramSize = 3,
     similarityThreshold = 4 / 5, clusterThreshold = 7 / 10 \<rparr>"

text \<open>
  The library's \<open>CodeSnippet\<close>. The field \<open>id\<close> is written \<open>sid\<close> (\<open>id\<close> is the identity
  function of HOL); \<open>clusterId\<close> is optional in the source. The timestamp is a number.
\<close>

record CodeSnippet =
  sid :: string
  content :: string
  language :: string
  filename :: string
  hash :: string
  minHashes :: "nat list"
  tokens :: "token list"
  patterns :: "string list"
  clusterId :: "string option"
  timestamp :: nat

text \<open>
  The library's \<open>Pattern\<close>. Its \<open>id\<close> field is built from the clock and a random number
  (\<open>generatePatternId\<close>) and is left out of the record: nothing reads it. The fields
  \<open>type\<close>, \<open>content\<close>, \<open>snippets\<close> and \<open>languages\<close> carry the prefix \<open>p\<close>.
\<close>

datatype PatternType = NGram | LCS | AST

record Pattern =
  ptype :: PatternType
  pcontent :: string
  frequency :: nat
  psnippets :: "string list"
  planguages :: "string list"

text \<open>\<open>Array.prototype.join\<close> on a list of strings.\<close>

fun join :: "string \<Rightarrow> string list \<Rightarrow> string" where
  "join sep [] = []"
| "join sep [x] = x"
| "join sep (x # y # ys) = x @ sep @ join sep (y # ys)"

text \<open>\<open>Set.prototype.add\<close> on a set kept in insertion order.\<close>

definition setAdd :: "'a \<Rightarrow> 'a list \<Rightarrow> 'a list" where
  "setAdd x xs = (if x \<in> set xs then xs else xs @ [x])"


section \<open>Pattern extraction: the longest common subsequence (core/patterns.ts)\<close>

text \<open>
  \<open>findLCS\<close> fills the table \<open>dp\<close> of \<open>(m + 1) \<times> (n + 1)\<close> zeros row by row and
  then walks back from \<open>dp[m][n]\<close>. The table is a list of rows; the two nested
  \<open>for\<close> loops are two nested folds over the index ranges \<open>1..m\<close> and \<open>1..n\<close>, each
  step writing one cell. Every read is inside the table and inside the token lists,
  as in the source.
\<close>

definition lcsCell :: "token list \<Rightarrow> token list \<Rightarrow> nat list list \<Rightarrow> nat \<Rightarrow> nat \<Rightarrow> nat" where
  "lcsCell tokens1 tokens2 dp i j =
     (if tokens1 ! (i - 1) = tokens2 ! (j - 1) then dp ! (i - 1) ! (j - 1) + 1
      else max (dp ! (i - 1) ! j) (dp ! i ! (j - 1)))"

definition lcsSetCell :: "token list \<Rightarrow> token list \<Rightarrow> nat \<Rightarrow> nat \<Rightarrow> nat list list \<Rightarrow> nat list list" where
  "lcsSetCell tokens1 tokens2 i j dp = dp[i := (dp ! i)[j := lcsCell tokens1 tokens2 dp i j]]"

definition lcsRow :: "token list \<Rightarrow> token list \<Rightarrow> nat \<Rightarrow> nat list list \<Rightarrow> nat list list" where
  "lcsRow tokens1 tokens2 i dp = fold (lcsSetCell tokens1 tokens2 i) [1..<Suc (length tokens2)] dp"

definition lcsTable :: "token list \<Rightarrow> token list \<Rightarrow> nat list list" where
  "lcsTable tokens1 tokens2 =
     fold (lcsRow tokens1 tokens2) [1..<Suc (length tokens1)]
       (replicate (Suc (length tokens1)) (replicate (Suc (length tokens2)) 0))"

function lcsBacktrack ::
  "token list \<Rightarrow> token list \<Rightarrow> nat list list \<Rightarrow> nat \<Rightarrow> nat \<Rightarrow> token list \<Rightarrow> token list" where
  "lcsBacktrack tokens1 tokens2 dp i j lcs =
     (if i > 0 \<and> j > 0 then
        (if tokens1 ! (i - 1) = tokens2 ! (j - 1)
         then lcsBacktrack tokens1 tokens2 dp (i - 1) (j - 1) (tokens1 ! (i - 1) # lcs)
         else if dp ! (i - 1) ! j > dp ! i ! (j - 1)
         then lcsBacktrack tokens1 tokens2 dp (i - 1) j lcs
         else lcsBacktrack tokens1 tokens2 dp i (j - 1) lcs)
      else lcs)"
  by pat_completeness auto
termination
  by (relation "measure (\<lambda>(tokens1, tokens2, dp, i, j, lcs). i + j)") auto

declare lcsBacktrack.simps [simp del]

definition findLCS :: "token list \<Rightarrow> token list \<Rightarrow> token list" where
  "findLCS tokens1 tokens2 =
     lcsBacktrack tokens1 tokens2 (lcsTable tokens1 tokens2) (length tokens1) (length tokens2) []"

text \<open>
  The reference value of a table cell: the length of a longest common subsequence of
  the first \<open>i\<close> tokens of one list and the first \<open>j\<close> tokens of the other.
\<close>

fun lcsLen :: "token list \<Rightarrow> token list \<Rightarrow> nat \<Rightarrow> nat \<Rightarrow> nat" where
  "lcsLen xs ys 0 j = 0"
| "lcsLen xs ys (Suc i) 0 = 0"
| "lcsLen xs ys (Suc i) (Suc j) =
     (if xs ! i = ys ! j then lcsLen xs ys i j + 1
      else max (lcsLen xs ys i (Suc j)) (lcsLen xs ys (Suc i) j))"

text \<open>The invariant of the two loops that fill the table: the shape of the table, and the cells already written.\<close>

definition lcsDims :: "token list \<Rightarrow> token list \<Rightarrow> nat list list \<Rightarrow> bool" where
  "lcsDims xs ys dp \<longleftrightarrow> length dp = Suc (length xs) \<and> (\<forall>r \<le> length xs. length (dp ! r) = Suc (length ys))"

definition lcsFilled :: "token list \<Rightarrow> token list \<Rightarrow> nat \<Rightarrow> nat \<Rightarrow> nat list list \<Rightarrow> bool" where
  "lcsFilled xs ys i j dp \<longleftrightarrow> lcsDims xs ys dp \<and>
     (\<forall>a b. a \<le> length xs \<and> b \<le> length ys \<and> (a < i \<or> (a = i \<and> b \<le> j) \<or> b = 0)
        \<longrightarrow> dp ! a ! b = lcsLen xs ys a b)"


section \<open>Pattern extraction: the three tiers and the ranking (core/patterns.ts)\<close>

text \<open>
  \<open>generateNGrams\<close>: the windows \<open>tokens.slice(i, i + n)\<close> for \<open>i = 0 .. length - n\<close>;
  none when the list is shorter than \<open>n\<close>.
\<close>

definition generateNGrams :: "token list \<Rightarrow> nat \<Rightarrow> token list list" where
  "generateNGrams toks n =
     (if n \<le> length toks
      then map (\<lambda>i. take n (drop i toks)) [0..<Suc (length toks - n)]
      else [])"

text \<open>
  The counting map \<open>Map<string, {count, snippets, languages}>\<close>, in insertion order.
  \<open>countOccurrence\<close> is one pass of the inner loop body: create the entry when the key
  is new, then increment the count and add the snippet id and the language to the
  entry's sets.
\<close>

type_synonym countMap = "(string \<times> (nat \<times> string list \<times> string list)) list"

fun countOccurrence :: "string \<Rightarrow> string \<Rightarrow> string \<Rightarrow> countMap \<Rightarrow> countMap" where
  "countOccurrence key i l [] = [(key, (1, [i], [l]))]"
| "countOccurrence key i l ((k, (c, ss, ls)) # m) =
     (if k = key then (k, (c + 1, setAdd i ss, setAdd l ls)) # m
      else (k, (c, ss, ls)) # countOccurrence key i l m)"

definition countSnippet :: "(CodeSnippet \<Rightarrow> string list) \<Rightarrow> CodeSnippet \<Rightarrow> countMap \<Rightarrow> countMap" where
  "countSnippet keys snippet m =
     fold (\<lambda>key. countOccurrence key (sid snippet) (language snippet)) (keys snippet) m"

definition emitCounted :: "PatternType \<Rightarrow> countMap \<Rightarrow> Pattern list" where
  "emitCounted t m =
     map (\<lambda>(k, (c, ss, ls)). \<lparr> ptype = t, pcontent = k, frequency = c, psnippets = ss, planguages = ls \<rparr>)
       (filter (\<lambda>(k, (c, ss, ls)). c \<ge> 2) m)"

definition ngramKeys :: "Config \<Rightarrow> CodeSnippet \<Rightarrow> string list" where
  "ngramKeys config snippet = map (join '' '') (generateNGrams (tokens snippet) (ngramSize config))"

definition extractNGramPatterns :: "Config \<Rightarrow> CodeSnippet list \<Rightarrow> Pattern list" where
  "extractNGramPatterns config snippets =
     emitCounted NGram (fold (countSnippet (ngramKeys config)) snippets [])"

text \<open>
  \<open>extractLCSPatterns\<close>: every pair \<open>i < j\<close>, skipped when its key \<open>id1-id2\<close> was seen.
  The state of the loops is the list of patterns and the set of processed keys.
\<close>

definition lcsPair :: "CodeSnippet \<Rightarrow> CodeSnippet \<Rightarrow> Pattern list \<times> string list \<Rightarrow> Pattern list \<times> string list" where
  "lcsPair snippet1 snippet2 st =
     (case st of (pats, processed) \<Rightarrow>
        let pairKey = sid snippet1 @ ''-'' @ sid snippet2 in
        if pairKey \<in> set processed then (pats, processed)
        else
          let lcs = findLCS (tokens snippet1) (tokens snippet2) in
          ((if length lcs \<ge> 3
            then pats @ [\<lparr> ptype = LCS, pcontent = join '' '' lcs, frequency = 2,
                           psnippets = [sid snippet1, sid snippet2],
                           planguages = [language snippet1, language snippet2] \<rparr>]
            else pats),
           setAdd pairKey processed))"

definition extractLCSPatterns :: "CodeSnippet list \<Rightarrow> Pattern list" where
  "extractLCSPatterns snippets =
     fst (fold (\<lambda>i. fold (\<lambda>j. lcsPair (snippets ! i) (snippets ! j)) [Suc i..<length snippets])
            [0..<length snippets] ([], []))"

text \<open>
  \<open>extractASTPatterns\<close> counts, with the same map, the strings that
  \<open>extractStructuralPatterns\<close> finds in a snippet's raw content by regular expressions.
  That function is the parameter \<open>structures\<close> (content, then language): the counting is
  modelled here, for every such function.
\<close>

definition astKeys :: "(string \<Rightarrow> string \<Rightarrow> string list) \<Rightarrow> CodeSnippet \<Rightarrow> string list" where
  "astKeys structures snippet = structures (content snippet) (language snippet)"

definition extractASTPatterns :: "(string \<Rightarrow> string \<Rightarrow> string list) \<Rightarrow> CodeSnippet list \<Rightarrow> Pattern list" where
  "extractASTPatterns structures snippets =
     emitCounted AST (fold (countSnippet (astKeys structures)) snippets [])"

text \<open>
  \<open>rankPatterns\<close>: \<open>Array.prototype.sort\<close> is stable, and the comparator orders by
  frequency, then by the number of languages, then by the number of snippets, each
  descending. \<open>rankCompare a b\<close> is the comparator's value; the sort inserts each
  pattern, in input order, before the first one it must precede.
\<close>

definition rankCompare :: "Pattern \<Rightarrow> Pattern \<Rightarrow> int" where
  "rankCompare a b =
     (if frequency a \<noteq> frequency b then int (frequency b) - int (frequency a)
      else if length (planguages a) \<noteq> length (planguages b)
      then int (length (planguages b)) - int (length (planguages a))
      else int (length (psnippets b)) - int (length (psnippets a)))"

fun rankInsert :: "Pattern \<Rightarrow> Pattern list \<Rightarrow> Pattern list" where
  "rankInsert p [] = [p]"
| "rankInsert p (q # qs) = (if rankCompare p q < 0 then p # q # qs else q # rankInsert p qs)"

definition rankPatterns :: "Pattern list \<Rightarrow> Pattern list" where
  "rankPatterns ps = fold rankInsert ps []"

definition extractPatterns ::
  "Config \<Rightarrow> (string \<Rightarrow> string \<Rightarrow> string list) \<Rightarrow> CodeSnippet list \<Rightarrow> Pattern list" where
  "extractPatterns config structures snippets =
     rankPatterns (extractNGramPatterns config snippets @ extractLCSPatterns snippets
                   @ extractASTPatterns structures snippets)"

text \<open>
  The number of times a key occurs over all snippets: every window (or every
  structural match) counts, also several in one snippet.
\<close>

definition occurrences :: "(CodeSnippet \<Rightarrow> string list) \<Rightarrow> CodeSnippet list \<Rightarrow> string \<Rightarrow> nat" where
  "occurrences keys snippets k = sum_list (map (\<lambda>s. count_list (keys s) k) snippets)"


text \<open>
  For the proofs: the count stored for a key, and the invariant of the counting map
  (keys are unique; every entry has a positive count and a duplicate-free snippet
  list that is not longer than the count).
\<close>

definition cnt :: "countMap \<Rightarrow> string \<Rightarrow> nat" where
  "cnt m k = (case map_of m k of None \<Rightarrow> 0 | Some (c, ss, ls) \<Rightarrow> c)"

definition countInv :: "countMap \<Rightarrow> bool" where
  "countInv m \<longleftrightarrow> distinct (map fst m) \<and> (\<forall>(k, (c, ss, ls)) \<in> set m. 1 \<le> c \<and> distinct ss \<and> length ss \<le> c)"

text \<open>For the proofs: the set of snippet ids stored for a key.\<close>

definition ids :: "countMap \<Rightarrow> string \<Rightarrow> string set" where
  "ids m k = (case map_of m k of None \<Rightarrow> {} | Some (c, ss, ls) \<Rightarrow> set ss)"

text \<open>
  The number of windows of \<open>n\<close> consecutive tokens of a token list whose text, the
  tokens joined by a blank, is \<open>k\<close>: one for every start position \<open>i\<close> with
  \<open>i + n \<le> length\<close>.
\<close>

definition windowCount :: "nat \<Rightarrow> token list \<Rightarrow> string \<Rightarrow> nat" where
  "windowCount n toks k = card {i. i + n \<le> length toks \<and> join '' '' (take n (drop i toks)) = k}"

text \<open>
  Sample inputs. \<open>sampleStructures\<close> gives the value of \<open>extractStructuralPatterns\<close> on the
  sample contents: the control-flow head \<open>if (CONDITION)\<close> for the two contents that
  start with \<open>if (ab)\<close>, nothing for a content without a function, a control-flow head or
  a class. The token lists are those the library's tokenizer gives for the contents.
\<close>

definition sampleStructures :: "string \<Rightarrow> string \<Rightarrow> string list" where
  "sampleStructures c l =
     (if c = ''if (ab) { cd ef ab cd ef }'' \<or> c = ''if (ab) { cd ef }'' then [''if (CONDITION)''] else [])"

definition sampleRepeated :: CodeSnippet where
  "sampleRepeated = \<lparr> sid = ''s1'', content = ''ab cd ef ab cd ef'', language = ''javascript'',
     filename = ''one.js'', hash = ''h1'', minHashes = [],
     tokens = [''ab'', ''cd'', ''ef'', ''ab'', ''cd'', ''ef''], patterns = [], clusterId = None,
     timestamp = 0 \<rparr>"

definition sampleLong :: CodeSnippet where
  "sampleLong = \<lparr> sid = ''s1'', content = ''if (ab) { cd ef ab cd ef }'', language = ''javascript'',
     filename = ''one.js'', hash = ''h1'', minHashes = [],
     tokens = [''if'', ''ab'', ''cd'', ''ef'', ''ab'', ''cd'', ''ef''], patterns = [], clusterId = None,
     timestamp = 0 \<rparr>"

definition sampleShort :: CodeSnippet where
  "sampleShort = \<lparr> sid = ''s2'', content = ''if (ab) { cd ef }'', language = ''javascript'',
     filename = ''two.js'', hash = ''h2'', minHashes = [],
     tokens = [''if'', ''ab'', ''cd'', ''ef''], patterns = [], clusterId = None,
     timestamp = 0 \<rparr>"


section \<open>JavaScript string and object primitives\<close>

text \<open>
  \<open>String.prototype.split\<close> with a one-character separator: the pieces between the
  separators, one piece for a string without any, so never an empty list.
\<close>

fun splitOn :: "char \<Rightarrow> string \<Rightarrow> string list" where
  "splitOn c [] = [[]]"
| "splitOn c (x # xs) =
     (if x = c then [] # splitOn c xs
      else (case splitOn c xs of [] \<Rightarrow> [[x]] | w # ws \<Rightarrow> (x # w) # ws))"

text \<open>
  \<open>String.prototype.toLowerCase\<close> on code units below 256: the letters \<open>A\<close> to \<open>Z\<close> and
  the capital letters of Latin-1 (\<open>0xC0\<close> to \<open>0xDE\<close> without the multiplication sign
  \<open>0xD7\<close>) move up by 32; every other character stays.
\<close>

definition toLowerChar :: "char \<Rightarrow> char" where
  "toLowerChar c =
     (let n = (of_char c :: nat) in
      if (65 \<le> n \<and> n \<le> 90) \<or> (192 \<le> n \<and> n \<le> 222 \<and> n \<noteq> 215) then char_of (n + 32) else c)"

definition toLowerCase :: "string \<Rightarrow> string" where
  "toLowerCase s = map toLowerChar s"

text \<open>
  Reading a property of an object literal by a computed key: the literal's own entry
  when it has one, otherwise the member of that name that every object inherits from
  \<open>Object.prototype\<close> (a function or an object, never a string), otherwise \<open>undefined\<close>.
\<close>

datatype jsProperty = Str string | ProtoMember string

definition objectPrototypeNames :: "string list" where
  "objectPrototypeNames =
     [''constructor'', ''__defineGetter__'', ''__defineSetter__'', ''hasOwnProperty'',
      ''__lookupGetter__'', ''__lookupSetter__'', ''isPrototypeOf'', ''propertyIsEnumerable'',
      ''toString'', ''valueOf'', ''__proto__'', ''toLocaleString'']"

definition getProperty :: "(string \<times> string) list \<Rightarrow> string \<Rightarrow> jsProperty option" where
  "getProperty literal key =
     (case map_of literal key of
        Some v \<Rightarrow> Some (Str v)
      | None \<Rightarrow> if key \<in> set objectPrototypeNames then Some (ProtoMember key) else None)"

text \<open>\<open>x || d\<close> for a property value \<open>x\<close> and a default string \<open>d\<close>: \<open>undefined\<close> and the
  empty string are falsy.\<close>

definition orDefault :: "jsProperty option \<Rightarrow> string \<Rightarrow> jsProperty" where
  "orDefault x d = (case x of None \<Rightarrow> Str d | Some (Str v) \<Rightarrow> (if v = [] then Str d else Str v)
                    | Some (ProtoMember k) \<Rightarrow> ProtoMember k)"


section \<open>Language detection (core/tokenizer.ts, both tokenizers)\<close>

text \<open>
  The library's \<open>Tokenizer.detectLanguage(filename, content?)\<close>: the last piece of
  \<open>filename.split('.')\<close>, lowercased, looked up in the literal \<open>extensions\<close>, with the
  default \<open>'text'\<close>. The optional \<open>content\<close> is a parameter, as in the source.
\<close>

definition extensions :: "(string \<times> string) list" where
  "extensions =
     [(''js'', ''javascript''), (''ts'', ''typescript''), (''py'', ''python''), (''java'', ''java''),
      (''cpp'', ''cpp''), (''cc'', ''cpp''), (''c'', ''c''), (''rs'', ''rust''), (''go'', ''go''),
      (''php'', ''php''), (''rb'', ''ruby''), (''swift'', ''swift''), (''kt'', ''kotlin''),
      (''scala'', ''scala''), (''cs'', ''csharp''), (''html'', ''html''), (''css'', ''css''),
      (''sql'', ''sql'')]"

definition Tokenizer_detectLanguage :: "string \<Rightarrow> string option \<Rightarrow> jsProperty" where
  "Tokenizer_detectLanguage fname fcontent =
     (let ext = toLowerCase (last (splitOn CHR ''.'' fname))
      in orDefault (getProperty extensions ext) ''text'')"

text \<open>
  The command line tree's \<open>CodeTokenizer.detectLanguage(filepath)\<close>: the path is
  lowercased first, then split; the literal is \<open>langMap\<close> and the default \<open>'unknown'\<close>.
\<close>

definition langMap :: "(string \<times> string) list" where
  "langMap =
     [(''js'', ''javascript''), (''jsx'', ''javascript''), (''ts'', ''typescript''),
      (''tsx'', ''typescript''), (''py'', ''python''), (''java'', ''java''), (''cpp'', ''cpp''),
      (''c'', ''c''), (''go'', ''go''), (''rs'', ''rust''), (''rb'', ''ruby''), (''php'', ''php''),
      (''cs'', ''csharp''), (''swift'', ''swift''), (''kt'', ''kotlin'')]"

definition CodeTokenizer_detectLanguage :: "string \<Rightarrow> jsProperty" where
  "CodeTokenizer_detectLanguage filepath =
     (let ext = last (splitOn CHR ''.'' (toLowerCase filepath))
      in orDefault (getProperty langMap ext) ''unknown'')"

text \<open>The extension as both functions read it: the lowercased text after the last dot,
  the whole lowercased name when there is no dot.\<close>

definition extensionOf :: "string \<Rightarrow> string" where
  "extensionOf fname = toLowerCase (last (splitOn CHR ''.'' fname))"


section \<open>The record logs (storage/jsonl.ts and the library's JSONLStorage)\<close>

text \<open>
  \<open>String.prototype.trim\<close> removes white space and line terminators at both ends; below
  256 these are tab, line feed, vertical tab, form feed, carriage return, space and the
  no-break space.
\<close>

definition isWhiteSpace :: "char \<Rightarrow> bool" where
  "isWhiteSpace c \<longleftrightarrow> (of_char c :: nat) \<in> {9, 10, 11, 12, 13, 32, 160}"

definition trim :: "string \<Rightarrow> string" where
  "trim s = rev (dropWhile isWhiteSpace (rev (dropWhile isWhiteSpace s)))"

text \<open>
  A log is read as a whole. The file is \<open>None\<close> when \<open>fs.readFile\<close> throws (no such file),
  otherwise its decoded content. \<open>JSON.parse\<close> is the parameter \<open>parse\<close>: \<open>None\<close> is its
  \<open>SyntaxError\<close>. \<open>parseAll\<close> is \<open>lines.map(line => JSON.parse(line))\<close>: the first line that
  does not parse throws out of the whole \<open>map\<close>.
\<close>

fun parseAll :: "(string \<Rightarrow> 'r option) \<Rightarrow> string list \<Rightarrow> 'r list option" where
  "parseAll parse [] = Some []"
| "parseAll parse (l # ls) =
     (case parse l of
        None \<Rightarrow> None
      | Some r \<Rightarrow> (case parseAll parse ls of None \<Rightarrow> None | Some rs \<Rightarrow> Some (r # rs)))"

text \<open>
  \<open>readSnippets\<close> of the command line tree: split at line feeds, keep the lines whose
  trimmed text is not empty, parse each; the \<open>catch\<close> around the whole body returns the
  empty list. \<open>readClusters\<close> and \<open>readPatterns\<close> are the same text on the other two
  files.
\<close>

definition readLines :: "string \<Rightarrow> string list" where
  "readLines fcontent = filter (\<lambda>line. trim line \<noteq> []) (splitOn CHR 0x0A fcontent)"

definition readSnippets :: "(string \<Rightarrow> 'r option) \<Rightarrow> string option \<Rightarrow> 'r list" where
  "readSnippets parse file =
     (case file of
        None \<Rightarrow> []
      | Some fcontent \<Rightarrow> (case parseAll parse (readLines fcontent) of None \<Rightarrow> [] | Some rs \<Rightarrow> rs))"

definition readClusters :: "(string \<Rightarrow> 'r option) \<Rightarrow> string option \<Rightarrow> 'r list" where
  "readClusters = readSnippets"

definition readPatterns :: "(string \<Rightarrow> 'r option) \<Rightarrow> string option \<Rightarrow> 'r list" where
  "readPatterns = readSnippets"

text \<open>
  \<open>loadJSONL\<close> of the library, behind \<open>loadSnippets\<close>, \<open>loadClusters\<close> and \<open>loadPatterns\<close>:
  the content is trimmed as a whole, split at line feeds, and the lines of length zero
  are dropped; the \<open>catch\<close> is the same.
\<close>

definition loadLines :: "string \<Rightarrow> string list" where
  "loadLines fcontent = filter (\<lambda>line. length line > 0) (splitOn CHR 0x0A (trim fcontent))"

definition loadJSONL :: "(string \<Rightarrow> 'r option) \<Rightarrow> string option \<Rightarrow> 'r list" where
  "loadJSONL parse file =
     (case file of
        None \<Rightarrow> []
      | Some fcontent \<Rightarrow> (case parseAll parse (loadLines fcontent) of None \<Rightarrow> [] | Some rs \<Rightarrow> rs))"

text \<open>
  Sample decoder: the value of \<open>JSON.parse\<close> on the three lines used below. The numerals
  \<open>1\<close> and \<open>2\<close> are JSON texts; \<open>{bad\<close> is not.
\<close>

definition sampleParse :: "string \<Rightarrow> nat option" where
  "sampleParse line = (if line = ''1'' then Some 1 else if line = ''2'' then Some 2 else None)"

definition sampleLog :: string where
  "sampleLog = [CHR ''1'', CHR 0x0A, CHR ''{'', CHR ''b'', CHR ''a'', CHR ''d'', CHR 0x0A, CHR ''2'', CHR 0x0A]"

definition sampleCleanLog :: string where
  "sampleCleanLog = [CHR ''1'', CHR 0x0A, CHR ''2'', CHR 0x0A]"


section \<open>MinHash signatures (clustering/minhash.ts and the library's MinHashLSH)\<close>

text \<open>
  Both classes build the same hash family in their constructor. A hash function is the
  closure over a pair \<open>(a, b)\<close> drawn with \<open>Math.random\<close>: \<open>a\<close> in \<open>1..1000000\<close>, \<open>b\<close> in
  \<open>0..999999\<close>. The draws are the parameter \<open>draws\<close> (the \<open>i\<close>-th pair); the family is the
  list of the pairs. All intermediate values stay below \<open>2^53\<close> for such pairs, so the
  source's doubles compute these natural numbers exactly.
\<close>

definition poly31 :: "string \<Rightarrow> nat" where
  "poly31 x = fold (\<lambda>c h. (h * 31 + of_char c) mod 2147483647) x 0"

definition hashFunction :: "nat \<times> nat \<Rightarrow> string \<Rightarrow> nat" where
  "hashFunction ab x = (fst ab * poly31 x + snd ab) mod 2147483647"

definition generateHashFunctions :: "(nat \<Rightarrow> nat \<times> nat) \<Rightarrow> nat \<Rightarrow> (nat \<times> nat) list" where
  "generateHashFunctions draws count = map draws [0..<count]"

subsection \<open>The command line tree: MinHashClusterer\<close>

text \<open>
  The records of \<open>src/core/types.ts\<close>. Field names that the library's records use too
  carry the suffix \<open>C\<close>; \<open>id\<close> is \<open>idC\<close>. A signature entry is a natural number or
  \<open>Infinity\<close>: the type \<^typ>\<open>enat\<close>.
\<close>

record ClusteringConfig =
  minhashBands :: nat
  minhashRows :: nat
  similarityThresholdC :: rat
  minClusterSize :: nat

record SnippetC =
  idC :: string
  contentC :: string
  languageC :: string
  filepath :: string
  lineStart :: nat
  lineEnd :: nat
  hashC :: string
  tokensC :: "token list"
  normalized :: string
  timestampC :: string

record MinHashSignature =
  signature :: "enat list"
  bands :: "enat list list"
  snippetId :: string

text \<open>
  An instance of \<open>MinHashClusterer\<close>: its configuration and its hash family. The
  constructor draws \<open>bands \<times> rows\<close> functions. \<open>CodeTokenizer.tokenize\<close>, a chain of
  regular-expression replacements and splits, is the field \<open>tokenizeC\<close> (content, then
  language): what follows holds for every tokenizer.
\<close>

record MinHashClusterer =
  clustererConfig :: ClusteringConfig
  hashFunctions :: "(nat \<times> nat) list"
  tokenizeC :: "string \<Rightarrow> string \<Rightarrow> token list"

definition newMinHashClusterer ::
  "(nat \<Rightarrow> nat \<times> nat) \<Rightarrow> (string \<Rightarrow> string \<Rightarrow> token list) \<Rightarrow> ClusteringConfig \<Rightarrow> MinHashClusterer" where
  "newMinHashClusterer draws tokenizer cfg =
     \<lparr> clustererConfig = cfg,
       hashFunctions = generateHashFunctions draws (minhashBands cfg * minhashRows cfg),
       tokenizeC = tokenizer \<rparr>"

definition generateShingles :: "token list \<Rightarrow> nat \<Rightarrow> string list" where
  "generateShingles toks n =
     (if n \<le> length toks
      then map (\<lambda>i. join '' '' (take n (drop i toks))) [0..<Suc (length toks - n)]
      else [])"

text \<open>
  The two loops of \<open>generateSignature\<close>: for every shingle, for every index \<open>i\<close>,
  \<open>signature[i] = Math.min(signature[i], hashFunctions[i](shingle))\<close>.
\<close>

definition minAt :: "(nat \<times> nat) list \<Rightarrow> string \<Rightarrow> nat \<Rightarrow> enat list \<Rightarrow> enat list" where
  "minAt hs shingle i sig = sig[i := min (sig ! i) (enat (hashFunction (hs ! i) shingle))]"

definition minShingle :: "(nat \<times> nat) list \<Rightarrow> string \<Rightarrow> enat list \<Rightarrow> enat list" where
  "minShingle hs shingle sig = fold (minAt hs shingle) [0..<length hs] sig"

definition generateSignature :: "MinHashClusterer \<Rightarrow> SnippetC \<Rightarrow> MinHashSignature" where
  "generateSignature this snippet =
     (let toks = tokenizeC this (contentC snippet) (languageC snippet);
          shingles = generateShingles toks 3;
          sig = fold (minShingle (hashFunctions this)) shingles
                  (replicate (length (hashFunctions this)) \<infinity>);
          rowsPerBand = minhashRows (clustererConfig this)
      in \<lparr> signature = sig,
           bands = map (\<lambda>i. take rowsPerBand (drop (i * rowsPerBand) sig)) [0..<minhashBands (clustererConfig this)],
           snippetId = idC snippet \<rparr>)"

subsection \<open>The library: MinHashLSH\<close>

text \<open>
  An instance of \<open>MinHashLSH\<close>: its configuration, its hash family, and the map
  \<open>buckets\<close> from a band's text to an \<open>LSHBucket\<close>, in insertion order.
\<close>

record LSHBucket =
  bsignature :: string
  bsnippets :: "string list"

record MinHashLSH =
  lshConfig :: Config
  lshHashFunctions :: "(nat \<times> nat) list"
  buckets :: "(string \<times> LSHBucket) list"

definition newMinHashLSH :: "(nat \<Rightarrow> nat \<times> nat) \<Rightarrow> Config \<Rightarrow> MinHashLSH" where
  "newMinHashLSH draws cfg =
     \<lparr> lshConfig = cfg,
       lshHashFunctions = generateHashFunctions draws (minHashBands cfg * minHashRows cfg),
       buckets = [] \<rparr>"

text \<open>
  \<open>new Set(tokens)\<close> keeps the first occurrence of every token, in order.
  \<open>computeMinHash\<close> walks the hash functions; for each it takes the least hash over the
  token set, starting from \<open>Infinity\<close>, and pushes 0 when the value is still \<open>Infinity\<close>.
\<close>

definition newSet :: "'a list \<Rightarrow> 'a list" where
  "newSet xs = fold setAdd xs []"

definition minHashOver :: "nat \<times> nat \<Rightarrow> string list \<Rightarrow> enat" where
  "minHashOver h tokenSet =
     fold (\<lambda>tok minHash. if enat (hashFunction h tok) < minHash then enat (hashFunction h tok) else minHash)
       tokenSet \<infinity>"

definition computeMinHash :: "MinHashLSH \<Rightarrow> token list \<Rightarrow> nat list" where
  "computeMinHash this toks =
     map (\<lambda>h. case minHashOver h (newSet toks) of \<infinity> \<Rightarrow> 0 | enat m \<Rightarrow> m) (lshHashFunctions this)"

text \<open>
  \<open>String(n)\<close> for a natural number: its decimal digits.
\<close>

function showNat :: "nat \<Rightarrow> string" where
  "showNat n = (if n < 10 then [char_of (48 + n)] else showNat (n div 10) @ [char_of (48 + n mod 10)])"
  by pat_completeness auto
termination
  by (relation "measure (\<lambda>n. n)") auto

declare showNat.simps [simp del]

text \<open>
  \<open>computeLSHSignature\<close>: band \<open>i\<close> is \<open>slice(i * rows, min(i * rows + rows, length))\<close>,
  printed with \<open>join(',')\<close>.
\<close>

definition computeLSHSignature :: "MinHashLSH \<Rightarrow> nat list \<Rightarrow> string list" where
  "computeLSHSignature this minHashSignature =
     map (\<lambda>i. let rowsPerBand = minHashRows (lshConfig this);
                 bandStart = i * rowsPerBand;
                 bandEnd = min (bandStart + rowsPerBand) (length minHashSignature);
                 band = take (bandEnd - bandStart) (drop bandStart minHashSignature)
             in join '','' (map showNat band))
       [0..<minHashBands (lshConfig this)]"

text \<open>
  \<open>addSnippet\<close>: for every band text, create the bucket when the map has none, then push
  the snippet id unless the bucket holds it.
\<close>

fun addToBucket :: "string \<Rightarrow> string \<Rightarrow> (string \<times> LSHBucket) list \<Rightarrow> (string \<times> LSHBucket) list" where
  "addToBucket bandSignature i [] = [(bandSignature, \<lparr> bsignature = bandSignature, bsnippets = [i] \<rparr>)]"
| "addToBucket bandSignature i ((k, b) # m) =
     (if k = bandSignature then (k, b\<lparr> bsnippets := setAdd i (bsnippets b) \<rparr>) # m
      else (k, b) # addToBucket bandSignature i m)"

definition addSnippet :: "MinHashLSH \<Rightarrow> CodeSnippet \<Rightarrow> MinHashLSH" where
  "addSnippet this snippet =
     this\<lparr> buckets := fold (\<lambda>bandSignature. addToBucket bandSignature (sid snippet))
                          (computeLSHSignature this (minHashes snippet)) (buckets this) \<rparr>"

text \<open>
  \<open>findCandidates\<close>: the ids, other than the snippet's own, of every bucket that one of
  the snippet's band texts names, as a set in insertion order.
\<close>

definition findCandidates :: "MinHashLSH \<Rightarrow> CodeSnippet \<Rightarrow> string list" where
  "findCandidates this snippet =
     fold (\<lambda>bandSignature candidates.
             case map_of (buckets this) bandSignature of
               None \<Rightarrow> candidates
             | Some bucket \<Rightarrow>
                 fold (\<lambda>candidateId cs. if candidateId \<noteq> sid snippet then setAdd candidateId cs else cs)
                   (bsnippets bucket) candidates)
       (computeLSHSignature this (minHashes snippet)) []"

text \<open>
  A JavaScript number that a division produces: an exact rational, or \<open>NaN\<close> for \<open>0/0\<close>
  (the source divides by zero only when the dividend is zero too). The source's
  doubles are modelled as exact rationals. \<open>geNum\<close> and \<open>gtNum\<close> are \<open>>=\<close> and \<open>>\<close>, false
  on \<open>NaN\<close>.
\<close>

datatype jsNumber = Num rat | NaN

definition divNum :: "nat \<Rightarrow> nat \<Rightarrow> jsNumber" where
  "divNum a b = (if b = 0 then NaN else Num (of_nat a / of_nat b))"

definition geNum :: "jsNumber \<Rightarrow> rat \<Rightarrow> bool" where
  "geNum x t = (case x of NaN \<Rightarrow> False | Num r \<Rightarrow> r \<ge> t)"

text \<open>The errors that the modelled code throws.\<close>

datatype error = SignatureLengthError | TypeError | NoSuchPath

text \<open>
  \<open>calculateSimilarity\<close> of the library throws when the two signatures differ in
  length; otherwise it is the share of positions that agree.
\<close>

definition countMatches :: "'a list \<Rightarrow> 'a list \<Rightarrow> nat" where
  "countMatches signature1 signature2 = length (filter (\<lambda>(a, b). a = b) (zip signature1 signature2))"

definition calculateSimilarity :: "nat list \<Rightarrow> nat list \<Rightarrow> error + jsNumber" where
  "calculateSimilarity signature1 signature2 =
     (if length signature1 \<noteq> length signature2 then Inl SignatureLengthError
      else Inr (divNum (countMatches signature1 signature2) (length signature1)))"


text \<open>
  Sample inputs. \<open>sampleDraws\<close> stands for the random draws: the \<open>i\<close>-th pair is
  \<open>(i + 1, i)\<close>. \<open>sampleTokenizerC\<close> gives the value of \<open>CodeTokenizer.tokenize\<close> on the
  sample contents (words separated by blanks, no comment, string, number or
  operator).
\<close>

definition sampleDraws :: "nat \<Rightarrow> nat \<times> nat" where
  "sampleDraws i = (i + 1, i)"

definition sampleTokenizerC :: "string \<Rightarrow> string \<Rightarrow> token list" where
  "sampleTokenizerC c l =
     (if c = ''ab cd ef gh'' then [''ab'', ''cd'', ''ef'', ''gh'']
      else if c = ''ab cd ef'' then [''ab'', ''cd'', ''ef'']
      else if c = ''ab cd'' then [''ab'', ''cd'']
      else [])"

definition sampleClusterer :: MinHashClusterer where
  "sampleClusterer = newMinHashClusterer sampleDraws sampleTokenizerC
     \<lparr> minhashBands = 2, minhashRows = 1, similarityThresholdC = 7 / 10, minClusterSize = 2 \<rparr>"

definition sampleSnippetC :: "string \<Rightarrow> string \<Rightarrow> SnippetC" where
  "sampleSnippetC i c = \<lparr> idC = i, contentC = c, languageC = ''javascript'', filepath = ''a.js'',
     lineStart = 1, lineEnd = 1, hashC = ''h'', tokensC = sampleTokenizerC c ''javascript'',
     normalized = c, timestampC = ''t'' \<rparr>"

definition sampleLSH :: MinHashLSH where
  "sampleLSH = newMinHashLSH sampleDraws (DEFAULT_CONFIG\<lparr> minHashBands := 2, minHashRows := 1 \<rparr>)"


section \<open>The library's tokenizer (core/tokenizer.ts, class Tokenizer)\<close>

text \<open>
  Every \<open>replace\<close> with a regular expression is written as the scanner that the
  expression denotes: it walks the text from the left, and at each position either
  consumes a whole match or copies one character.
\<close>








text \<open>
  \<open>replace(/\s+/g, ' ')\<close>: every maximal run of white space becomes one blank. The flag
  says whether the previous character was white space.
\<close>

fun collapseWhitespace :: "bool \<Rightarrow> string \<Rightarrow> string" where
  "collapseWhitespace inRun [] = []"
| "collapseWhitespace inRun (x # xs) =
     (if isWhiteSpace x
      then (if inRun then collapseWhitespace True xs else CHR '' '' # collapseWhitespace True xs)
      else x # collapseWhitespace False xs)"



















section \<open>Ingestion (the library's CodeCollage.ingest, ingestDirectory and ingestFile)\<close>




text \<open>
  The result of \<open>ingest\<close> and of \<open>ingestDirectory\<close>: the two counters and the snippets, in
  the order of the walk.
\<close>

record IngestResult =
  processed :: nat
  skipped :: nat
  ingested :: "CodeSnippet list"









section \<open>Clustering in the command line tree (clustering/minhash.ts)\<close>

text \<open>
  A \<open>Map\<close> in insertion order: \<open>mapSet\<close> overwrites the value of a key that is present,
  keeping its place, and appends a new key.
\<close>

fun mapSet :: "'k \<Rightarrow> 'v \<Rightarrow> ('k \<times> 'v) list \<Rightarrow> ('k \<times> 'v) list" where
  "mapSet k v [] = [(k, v)]"
| "mapSet k v ((k', v') # m) = (if k' = k then (k, v) # m else (k', v') # mapSet k v m)"













text \<open>A loop whose body may throw: the first error ends it.\<close>

fun foldE :: "('a \<Rightarrow> 'b \<Rightarrow> error + 'b) \<Rightarrow> 'a list \<Rightarrow> 'b \<Rightarrow> error + 'b" where
  "foldE f [] b = Inr b"
| "foldE f (a # as) b = (case f a b of Inl e \<Rightarrow> Inl e | Inr b' \<Rightarrow> foldE f as b')"



















section \<open>Clustering in the library (Clusterer)\<close>





















section \<open>De-duplication (CodeCollage.deduplicate)\<close>

text \<open>
  The state of the loop: the \<open>MinHashLSH\<close> made for this pass, the map \<open>unique\<close> from id to
  kept snippet in insertion order, and the set \<open>processed\<close> of ids.
\<close>

record DedupState =
  dedupLsh :: MinHashLSH
  dedupUnique :: "(string \<times> CodeSnippet) list"
  dedupProcessed :: "string list"

record DedupResult =
  uniqueSnippets :: "CodeSnippet list"
  duplicatesRemoved :: nat

text \<open>
  The loop over the candidates: a candidate that \<open>unique\<close> does not hold is passed over;
  the first kept candidate whose similarity reaches the threshold ends the loop with
  \<open>isDuplicate = true\<close>. \<open>calculateSimilarity\<close> throws on signatures of different lengths.
\<close>

fun anySimilar ::
  "Config \<Rightarrow> (string \<times> CodeSnippet) list \<Rightarrow> CodeSnippet \<Rightarrow> string list \<Rightarrow> error + bool" where
  "anySimilar cfg unique snippet [] = Inr False"
| "anySimilar cfg unique snippet (candidateId # rest) =
     (case map_of unique candidateId of
        None \<Rightarrow> anySimilar cfg unique snippet rest
      | Some candidate \<Rightarrow>
          (case calculateSimilarity (minHashes snippet) (minHashes candidate) of
             Inl e \<Rightarrow> Inl e
           | Inr similarity \<Rightarrow>
               if geNum similarity (similarityThreshold cfg) then Inr True
               else anySimilar cfg unique snippet rest))"

text \<open>
  One round of the loop: an id already processed is passed over; a snippet whose hash
  a kept snippet has is marked processed; otherwise the snippet is added to the
  \<open>MinHashLSH\<close> (also when it is dropped afterwards), its candidates are read back, and it
  is kept unless a kept candidate is similar.
\<close>

definition dedupStep :: "Config \<Rightarrow> CodeSnippet \<Rightarrow> DedupState \<Rightarrow> error + DedupState" where
  "dedupStep cfg snippet st =
     (if sid snippet \<in> set (dedupProcessed st) then Inr st
      else if find (\<lambda>s. hash s = hash snippet) (map snd (dedupUnique st)) \<noteq> None
      then Inr (st\<lparr> dedupProcessed := setAdd (sid snippet) (dedupProcessed st) \<rparr>)
      else (let lsh = addSnippet (dedupLsh st) snippet;
                candidates = findCandidates lsh snippet
            in case anySimilar cfg (dedupUnique st) snippet candidates of
                 Inl e \<Rightarrow> Inl e
               | Inr isDuplicate \<Rightarrow>
                   Inr \<lparr> dedupLsh = lsh,
                         dedupUnique = (if isDuplicate then dedupUnique st
                                        else mapSet (sid snippet) snippet (dedupUnique st)),
                         dedupProcessed = setAdd (sid snippet) (dedupProcessed st) \<rparr>))"

definition deduplicate :: "(nat \<Rightarrow> nat \<times> nat) \<Rightarrow> Config \<Rightarrow> CodeSnippet list \<Rightarrow> error + DedupResult" where
  "deduplicate draws cfg snippets =
     (case foldE (dedupStep cfg) snippets
             \<lparr> dedupLsh = newMinHashLSH draws cfg, dedupUnique = [], dedupProcessed = [] \<rparr> of
        Inl e \<Rightarrow> Inl e
      | Inr st \<Rightarrow>
          Inr \<lparr> uniqueSnippets = map snd (dedupUnique st),
                duplicatesRemoved = length snippets - length (dedupUnique st) \<rparr>)"

subsection \<open>The rule in the words of the specification\<close>

text \<open>
  The band texts of a signature under a configuration; the estimated similarity of two
  signatures (the share of positions that agree); \<open>nearDuplicate\<close>: the two snippets
  share a band text, which makes each a candidate of the other, and the estimate
  reaches the threshold. \<open>keptSpec\<close> walks the input once and keeps a snippet exactly
  when no snippet kept so far has its hash and none is a near duplicate of it.
\<close>

definition bandTexts :: "Config \<Rightarrow> nat list \<Rightarrow> string list" where
  "bandTexts cfg sig =
     computeLSHSignature \<lparr> lshConfig = cfg, lshHashFunctions = [], buckets = [] \<rparr> sig"

definition estimate :: "nat list \<Rightarrow> nat list \<Rightarrow> jsNumber" where
  "estimate a b = divNum (countMatches a b) (length a)"

definition nearDuplicate :: "Config \<Rightarrow> CodeSnippet \<Rightarrow> CodeSnippet \<Rightarrow> bool" where
  "nearDuplicate cfg s k \<longleftrightarrow>
     set (bandTexts cfg (minHashes s)) \<inter> set (bandTexts cfg (minHashes k)) \<noteq> {}
     \<and> geNum (estimate (minHashes s) (minHashes k)) (similarityThreshold cfg)"

definition keepSpec :: "Config \<Rightarrow> CodeSnippet list \<Rightarrow> CodeSnippet \<Rightarrow> bool" where
  "keepSpec cfg kept s \<longleftrightarrow>
     (\<forall>k \<in> set kept. hash k \<noteq> hash s) \<and> (\<forall>k \<in> set kept. \<not> nearDuplicate cfg s k)"

definition keptSpec :: "Config \<Rightarrow> CodeSnippet list \<Rightarrow> CodeSnippet list" where
  "keptSpec cfg snippets =
     fold (\<lambda>s kept. if keepSpec cfg kept s then kept @ [s] else kept) snippets []"

text \<open>
  What holds of the state after the snippets \<open>pre\<close>: \<open>unique\<close> holds the kept snippets
  under their ids, the processed ids are ids of \<open>pre\<close>, and every bucket holds the ids of
  the kept snippets with its band text and only ids of snippets of \<open>pre\<close> with it.
\<close>

definition bucketIds :: "(string \<times> LSHBucket) list \<Rightarrow> string \<Rightarrow> string set" where
  "bucketIds bs b = (case map_of bs b of None \<Rightarrow> {} | Some bucket \<Rightarrow> set (bsnippets bucket))"

definition dedupInv :: "Config \<Rightarrow> CodeSnippet list \<Rightarrow> DedupState \<Rightarrow> bool" where
  "dedupInv cfg pre st \<longleftrightarrow>
     dedupUnique st = map (\<lambda>k. (sid k, k)) (keptSpec cfg pre)
     \<and> set (dedupProcessed st) \<subseteq> sid ` set pre
     \<and> lshConfig (dedupLsh st) = cfg
     \<and> (\<forall>b. sid ` {k \<in> set (keptSpec cfg pre). b \<in> set (bandTexts cfg (minHashes k))}
             \<subseteq> bucketIds (buckets (dedupLsh st)) b)
     \<and> (\<forall>b. bucketIds (buckets (dedupLsh st)) b
             \<subseteq> sid ` {a \<in> set pre. b \<in> set (bandTexts cfg (minHashes a))})"


section \<open>Verification: the longest common subsequence\<close>

lemma fold_upt_Suc: "a \<le> b \<Longrightarrow> fold f [a..<Suc b] s = f b (fold f [a..<b] s)"
  by simp

lemma lcsLen_0 [simp]: "lcsLen xs ys i 0 = 0"
  by (cases i) simp_all

lemma lcsFilled_init:
  "lcsFilled xs ys 1 0 (replicate (Suc (length xs)) (replicate (Suc (length ys)) 0))"
  by (auto simp: lcsFilled_def lcsDims_def simp del: replicate_Suc)

lemma lcsSetCell_filled:
  assumes "lcsFilled xs ys i j dp" "1 \<le> i" "i \<le> length xs" "j < length ys"
  shows "lcsFilled xs ys i (Suc j) (lcsSetCell xs ys i (Suc j) dp)"
proof -
  from assms have dims: "lcsDims xs ys dp" by (simp add: lcsFilled_def)
  obtain i' where i': "i = Suc i'" using assms(2) by (cases i) auto
  have cell: "lcsCell xs ys dp i (Suc j) = lcsLen xs ys i (Suc j)"
    using assms unfolding lcsCell_def lcsFilled_def i' by simp
  have d2: "lcsDims xs ys (lcsSetCell xs ys i (Suc j) dp)"
    using dims assms(3) unfolding lcsDims_def lcsSetCell_def
    by (auto simp: nth_list_update)
  show ?thesis
    unfolding lcsFilled_def
  proof (intro conjI allI impI)
    show "lcsDims xs ys (lcsSetCell xs ys i (Suc j) dp)" by (rule d2)
  next
    fix a b
    assume h: "a \<le> length xs \<and> b \<le> length ys \<and> (a < i \<or> a = i \<and> b \<le> Suc j \<or> b = 0)"
    show "lcsSetCell xs ys i (Suc j) dp ! a ! b = lcsLen xs ys a b"
    proof (cases "a = i \<and> b = Suc j")
      case True
      then show ?thesis using cell dims assms(3,4) unfolding lcsSetCell_def lcsDims_def
        by simp
    next
      case False
      have "lcsSetCell xs ys i (Suc j) dp ! a ! b = dp ! a ! b"
      proof (cases "a = i")
        case True
        with False have "b \<noteq> Suc j" by simp
        then show ?thesis using True dims assms(3) unfolding lcsSetCell_def lcsDims_def
          by simp
      next
        case False
        then show ?thesis unfolding lcsSetCell_def by simp
      qed
      moreover have "dp ! a ! b = lcsLen xs ys a b"
        using assms(1) h False unfolding lcsFilled_def by auto
      ultimately show ?thesis by simp
    qed
  qed
qed

lemma lcsRow_partial:
  assumes "lcsFilled xs ys i 0 dp" "1 \<le> i" "i \<le> length xs"
  shows "k \<le> length ys \<Longrightarrow> lcsFilled xs ys i k (fold (lcsSetCell xs ys i) [1..<Suc k] dp)"
proof (induction k)
  case 0
  then show ?case using assms by simp
next
  case (Suc k)
  then have "lcsFilled xs ys i k (fold (lcsSetCell xs ys i) [1..<Suc k] dp)" by simp
  then have "lcsFilled xs ys i (Suc k) (lcsSetCell xs ys i (Suc k) (fold (lcsSetCell xs ys i) [1..<Suc k] dp))"
    using lcsSetCell_filled assms Suc.prems by simp
  then show ?case by simp
qed

lemma lcsRow_filled:
  assumes "lcsFilled xs ys i 0 dp" "1 \<le> i" "i \<le> length xs"
  shows "lcsFilled xs ys (Suc i) 0 (lcsRow xs ys i dp)"
proof -
  have "lcsFilled xs ys i (length ys) (lcsRow xs ys i dp)"
    unfolding lcsRow_def using lcsRow_partial[OF assms, of "length ys"] by simp
  then show ?thesis unfolding lcsFilled_def by (auto simp: less_Suc_eq)
qed

lemma lcsTable_partial:
  "k \<le> length xs \<Longrightarrow> lcsFilled xs ys (Suc k) 0
     (fold (lcsRow xs ys) [1..<Suc k] (replicate (Suc (length xs)) (replicate (Suc (length ys)) 0)))"
proof (induction k)
  case 0
  then show ?case using lcsFilled_init by simp
next
  case (Suc k)
  then show ?case using lcsRow_filled[of xs ys "Suc k"] by simp
qed

lemma lcsTable_correct:
  assumes "a \<le> length xs" "b \<le> length ys"
  shows "lcsTable xs ys ! a ! b = lcsLen xs ys a b"
  using lcsTable_partial[of "length xs" xs ys] assms
  unfolding lcsTable_def lcsFilled_def by auto


lemma subseq_snoc_cases:
  assumes "subseq zs (as @ [a])"
  shows "subseq zs as \<or> (\<exists>zs'. zs = zs' @ [a] \<and> subseq zs' as)"
proof -
  from assms obtain zs1 zs2 where z: "zs = zs1 @ zs2" "subseq zs1 as" "subseq zs2 [a]"
    by (auto simp: subseq_append_iff)
  from z(3) have "zs2 = [] \<or> zs2 = [a]"
    by (cases zs2) (auto simp: subseq_Cons2_iff split: if_splits)
  then show ?thesis using z by auto
qed

lemma lcsLen_upper:
  "i \<le> length xs \<Longrightarrow> j \<le> length ys \<Longrightarrow> subseq zs (take i xs) \<Longrightarrow> subseq zs (take j ys)
     \<Longrightarrow> length zs \<le> lcsLen xs ys i j"
proof (induction xs ys i j arbitrary: zs rule: lcsLen.induct)
  case (1 xs ys j)
  then show ?case by simp
next
  case (2 xs ys i)
  then show ?case by simp
next
  case (3 xs ys i j)
  have tx: "take (Suc i) xs = take i xs @ [xs ! i]"
    using "3.prems"(1) by (simp add: take_Suc_conv_app_nth)
  have ty: "take (Suc j) ys = take j ys @ [ys ! j]"
    using "3.prems"(2) by (simp add: take_Suc_conv_app_nth)
  from "3.prems"(3) tx have cx: "subseq zs (take i xs) \<or> (\<exists>zs'. zs = zs' @ [xs ! i] \<and> subseq zs' (take i xs))"
    using subseq_snoc_cases by metis
  from "3.prems"(4) ty have cy: "subseq zs (take j ys) \<or> (\<exists>zs'. zs = zs' @ [ys ! j] \<and> subseq zs' (take j ys))"
    using subseq_snoc_cases by metis
  have il: "i \<le> length xs" and jl: "j \<le> length ys" using "3.prems" by simp_all
  show ?case
  proof (cases "xs ! i = ys ! j")
    case True
    have "\<exists>zs'. length zs \<le> Suc (length zs') \<and> subseq zs' (take i xs) \<and> subseq zs' (take j ys)"
    proof -
      from cx show ?thesis
      proof
        assume a: "subseq zs (take i xs)"
        from cy show ?thesis
        proof
          assume "subseq zs (take j ys)"
          with a show ?thesis by (intro exI[of _ zs]) simp
        next
          assume "\<exists>zs'. zs = zs' @ [ys ! j] \<and> subseq zs' (take j ys)"
          then obtain zs' where z: "zs = zs' @ [ys ! j]" "subseq zs' (take j ys)" by blast
          have "subseq zs' zs" using z(1) by (simp add: prefix_imp_subseq)
          then have "subseq zs' (take i xs)" using a subseq_order.order_trans by blast
          with z show ?thesis by (intro exI[of _ zs']) simp
        qed
      next
        assume "\<exists>zs'. zs = zs' @ [xs ! i] \<and> subseq zs' (take i xs)"
        then obtain zs' where z: "zs = zs' @ [xs ! i]" "subseq zs' (take i xs)" by blast
        have p: "subseq zs' zs" using z(1) by (simp add: prefix_imp_subseq)
        from cy have "subseq zs' (take j ys)"
        proof
          assume "subseq zs (take j ys)"
          with p show ?thesis using subseq_order.order_trans by blast
        next
          assume "\<exists>zs'. zs = zs' @ [ys ! j] \<and> subseq zs' (take j ys)"
          then show ?thesis using z(1) by auto
        qed
        with z show ?thesis by (intro exI[of _ zs']) simp
      qed
    qed
    then obtain zs' where z: "length zs \<le> Suc (length zs')" "subseq zs' (take i xs)" "subseq zs' (take j ys)"
      by blast
    have "length zs' \<le> lcsLen xs ys i j"
      using "3.IH"(1)[OF True il jl z(2) z(3)] .
    then show ?thesis using True z(1) by simp
  next
    case False
    have "subseq zs (take i xs) \<or> subseq zs (take j ys)"
      using cx cy False by auto
    then show ?thesis
    proof
      assume a: "subseq zs (take i xs)"
      have "length zs \<le> lcsLen xs ys i (Suc j)"
        using "3.IH"(2)[OF False il "3.prems"(2) a "3.prems"(4)] .
      then show ?thesis using False by simp
    next
      assume a: "subseq zs (take j ys)"
      have "length zs \<le> lcsLen xs ys (Suc i) j"
        using "3.IH"(3)[OF False "3.prems"(1) jl "3.prems"(3) a] .
      then show ?thesis using False by simp
    qed
  qed
qed

lemma lcsBacktrack_correct:
  "\<forall>a b. a \<le> length xs \<and> b \<le> length ys \<longrightarrow> dp ! a ! b = lcsLen xs ys a b \<Longrightarrow>
     i \<le> length xs \<Longrightarrow> j \<le> length ys \<Longrightarrow>
     \<exists>zs. lcsBacktrack xs ys dp i j acc = zs @ acc \<and> subseq zs (take i xs) \<and> subseq zs (take j ys)
        \<and> length zs = lcsLen xs ys i j"
proof (induction xs ys dp i j acc rule: lcsBacktrack.induct)
  case (1 tokens1 tokens2 dp i j lcs)
  note tab1 = "1.prems"(1)
  show ?case
  proof (cases "i > 0 \<and> j > 0")
    case False
    then have "lcsBacktrack tokens1 tokens2 dp i j lcs = lcs"
      by (subst lcsBacktrack.simps) auto
    moreover have "lcsLen tokens1 tokens2 i j = 0" using False by (cases i) auto
    ultimately show ?thesis by simp
  next
    case True
    then obtain i' j' where ij: "i = Suc i'" "j = Suc j'"
      by (cases i; cases j) auto
    have il: "i' \<le> length tokens1" "i' < length tokens1" and jl: "j' \<le> length tokens2" "j' < length tokens2"
      using "1.prems" ij by simp_all
    have tx: "take i tokens1 = take i' tokens1 @ [tokens1 ! i']"
      using il ij by (simp add: take_Suc_conv_app_nth)
    have ty: "take j tokens2 = take j' tokens2 @ [tokens2 ! j']"
      using jl ij by (simp add: take_Suc_conv_app_nth)
    show ?thesis
    proof (cases "tokens1 ! (i - 1) = tokens2 ! (j - 1)")
      case eq: True
      have step: "lcsBacktrack tokens1 tokens2 dp i j lcs
          = lcsBacktrack tokens1 tokens2 dp (i - 1) (j - 1) (tokens1 ! (i - 1) # lcs)"
        using True eq by (subst lcsBacktrack.simps) simp
      from "1.IH"(1)[OF True eq tab1] il jl ij
      obtain zs where z: "lcsBacktrack tokens1 tokens2 dp (i - 1) (j - 1) (tokens1 ! (i - 1) # lcs) = zs @ tokens1 ! (i - 1) # lcs"
        "subseq zs (take i' tokens1)" "subseq zs (take j' tokens2)" "length zs = lcsLen tokens1 tokens2 i' j'"
        by auto
      have "lcsBacktrack tokens1 tokens2 dp i j lcs = (zs @ [tokens1 ! i']) @ lcs"
        using step z(1) ij by simp
      moreover have "subseq (zs @ [tokens1 ! i']) (take i tokens1)"
        using z(2) tx by simp
      moreover have "subseq (zs @ [tokens1 ! i']) (take j tokens2)"
        using z(3) ty eq ij by simp
      moreover have "length (zs @ [tokens1 ! i']) = lcsLen tokens1 tokens2 i j"
        using z(4) eq ij by simp
      ultimately show ?thesis by blast
    next
      case ne: False
      show ?thesis
      proof (cases "dp ! (i - 1) ! j > dp ! i ! (j - 1)")
        case up: True
        have step: "lcsBacktrack tokens1 tokens2 dp i j lcs = lcsBacktrack tokens1 tokens2 dp (i - 1) j lcs"
          using True ne up by (subst lcsBacktrack.simps) simp
        from "1.IH"(2)[OF True ne up tab1] il "1.prems"(3) ij
        obtain zs where z: "lcsBacktrack tokens1 tokens2 dp (i - 1) j lcs = zs @ lcs"
          "subseq zs (take i' tokens1)" "subseq zs (take j tokens2)" "length zs = lcsLen tokens1 tokens2 i' j"
          by auto
        have "dp ! i' ! j = lcsLen tokens1 tokens2 i' j" "dp ! i ! j' = lcsLen tokens1 tokens2 i j'"
          using tab1 il jl "1.prems" by simp_all
        then have "lcsLen tokens1 tokens2 i j = lcsLen tokens1 tokens2 i' j"
          using up ne ij by simp
        moreover have "subseq zs (take i tokens1)" using z(2) tx by (simp add: subseq_rev_drop_many)
        ultimately show ?thesis using step z by auto
      next
        case left: False
        have step: "lcsBacktrack tokens1 tokens2 dp i j lcs = lcsBacktrack tokens1 tokens2 dp i (j - 1) lcs"
          using True ne left by (subst lcsBacktrack.simps) simp
        from "1.IH"(3)[OF True ne left tab1] jl "1.prems"(2) ij
        obtain zs where z: "lcsBacktrack tokens1 tokens2 dp i (j - 1) lcs = zs @ lcs"
          "subseq zs (take i tokens1)" "subseq zs (take j' tokens2)" "length zs = lcsLen tokens1 tokens2 i j'"
          by auto
        have "dp ! i' ! j = lcsLen tokens1 tokens2 i' j" "dp ! i ! j' = lcsLen tokens1 tokens2 i j'"
          using tab1 il jl "1.prems" by simp_all
        then have "lcsLen tokens1 tokens2 i j = lcsLen tokens1 tokens2 i j'"
          using left ne ij by simp
        moreover have "subseq zs (take j tokens2)" using z(3) ty by (simp add: subseq_rev_drop_many)
        ultimately show ?thesis using step z by auto
      qed
    qed
  qed
qed

text \<open>
  Claim C5. For every pair of token sequences, \<open>findLCS\<close> returns a sequence that is a
  subsequence of both inputs, and no common subsequence of the two inputs is longer;
  on \<open>[a,b,c,d,e]\<close> and \<open>[z,a,c,x,e]\<close> it returns \<open>[a,c,e]\<close>.
\<close>

theorem findLCS_longest_common_subsequence:
  "subseq (findLCS xs ys) xs \<and> subseq (findLCS xs ys) ys
   \<and> (\<forall>zs. subseq zs xs \<and> subseq zs ys \<longrightarrow> length zs \<le> length (findLCS xs ys))
   \<and> findLCS [''a'', ''b'', ''c'', ''d'', ''e''] [''z'', ''a'', ''c'', ''x'', ''e''] = [''a'', ''c'', ''e'']"
proof -
  have tab: "\<forall>a b. a \<le> length xs \<and> b \<le> length ys \<longrightarrow> lcsTable xs ys ! a ! b = lcsLen xs ys a b"
    using lcsTable_correct by blast
  from lcsBacktrack_correct[OF tab, of "length xs" "length ys" "[]"]
  obtain zs where z: "findLCS xs ys = zs" "subseq zs xs" "subseq zs ys"
      "length zs = lcsLen xs ys (length xs) (length ys)"
    unfolding findLCS_def by auto
  have up: "\<forall>zs'. subseq zs' xs \<and> subseq zs' ys \<longrightarrow> length zs' \<le> length (findLCS xs ys)"
    using lcsLen_upper[of "length xs" xs "length ys" ys] z by simp
  have ex: "findLCS [''a'', ''b'', ''c'', ''d'', ''e''] [''z'', ''a'', ''c'', ''x'', ''e''] = [''a'', ''c'', ''e'']"
    by code_simp
  show ?thesis using z up ex by simp
qed

text \<open>
  The bound at a concrete pair: \<open>[b,d]\<close> is a common subsequence of \<open>[a,b,c,d]\<close> and
  \<open>[b,x,d]\<close>, and the result is not shorter.
\<close>

theorem findLCS_witness:
  "subseq [''b'', ''d''] [''a'', ''b'', ''c'', ''d''] \<and> subseq [''b'', ''d''] [''b'', ''x'', ''d'']
   \<and> length [''b'', ''d''] \<le> length (findLCS [''a'', ''b'', ''c'', ''d''] [''b'', ''x'', ''d''])
   \<and> findLCS [''a'', ''b'', ''c'', ''d''] [''b'', ''x'', ''d''] = [''b'', ''d'']"
proof -
  have a: "subseq [''b'', ''d''] [''a'', ''b'', ''c'', ''d'']" by simp
  have b: "subseq [''b'', ''d''] [''b'', ''x'', ''d'']" by simp
  have c: "findLCS [''a'', ''b'', ''c'', ''d''] [''b'', ''x'', ''d''] = [''b'', ''d'']" by code_simp
  from findLCS_longest_common_subsequence[of "[''a'', ''b'', ''c'', ''d'']" "[''b'', ''x'', ''d'']"] a b
  have "length [''b'', ''d''] \<le> length (findLCS [''a'', ''b'', ''c'', ''d''] [''b'', ''x'', ''d''])"
    by blast
  with a b c show ?thesis by simp
qed

section \<open>Verification: pattern frequencies\<close>

lemma countOccurrence_keys: "set (map fst (countOccurrence key i l m)) = insert key (set (map fst m))"
proof (induction m)
  case Nil
  then show ?case by simp
next
  case (Cons e m)
  obtain k c ss ls where e: "e = (k, (c, ss, ls))" by (metis prod_cases4)
  show ?case using Cons unfolding e by auto
qed

lemma countOccurrence_distinct: "distinct (map fst m) \<Longrightarrow> distinct (map fst (countOccurrence key i l m))"
proof (induction m)
  case Nil
  then show ?case by simp
next
  case (Cons e m)
  obtain k c ss ls where e: "e = (k, (c, ss, ls))" by (metis prod_cases4)
  show ?case using Cons countOccurrence_keys[of key i l m] unfolding e by auto
qed

lemma setAdd_props: "distinct ss \<Longrightarrow> distinct (setAdd i ss)" "length (setAdd i ss) \<le> Suc (length ss)"
  "set (setAdd i ss) = insert i (set ss)"
  by (auto simp: setAdd_def)

lemma countOccurrence_entries:
  "\<forall>(k, (c, ss, ls)) \<in> set m. 1 \<le> c \<and> distinct ss \<and> length ss \<le> c \<Longrightarrow>
   \<forall>(k, (c, ss, ls)) \<in> set (countOccurrence key i l m). 1 \<le> c \<and> distinct ss \<and> length ss \<le> c"
proof (induction m)
  case Nil
  then show ?case by simp
next
  case (Cons e m)
  obtain k c ss ls where e: "e = (k, (c, ss, ls))" by (metis prod_cases4)
  have "distinct ss \<Longrightarrow> distinct (setAdd i ss)" "length (setAdd i ss) \<le> Suc (length ss)"
    by (simp_all add: setAdd_def)
  then show ?case using Cons unfolding e by (auto simp: le_SucI)
qed

lemma countOccurrence_inv:
  assumes "countInv m"
  shows "countInv (countOccurrence key i l m)"
proof -
  from assms have a: "distinct (map fst m)"
    and b: "\<forall>(k, (c, ss, ls)) \<in> set m. 1 \<le> c \<and> distinct ss \<and> length ss \<le> c"
    unfolding countInv_def by simp_all
  show ?thesis
    unfolding countInv_def
    using countOccurrence_distinct[OF a] countOccurrence_entries[OF b] by simp
qed

lemma countOccurrence_cnt:
  "cnt (countOccurrence key i l m) k = cnt m k + (if k = key then 1 else 0)"
proof (induction m)
  case Nil
  then show ?case by (simp add: cnt_def)
next
  case (Cons e m)
  obtain k' c ss ls where e: "e = (k', (c, ss, ls))" by (metis prod_cases4)
  show ?case using Cons unfolding e cnt_def by auto
qed

lemma fold_countOccurrence:
  "countInv m \<Longrightarrow> countInv (fold (\<lambda>key. countOccurrence key i l) ks m)
     \<and> cnt (fold (\<lambda>key. countOccurrence key i l) ks m) k = cnt m k + count_list ks k"
proof (induction ks arbitrary: m)
  case Nil
  then show ?case by simp
next
  case (Cons a ks)
  from Cons.IH[OF countOccurrence_inv[OF Cons.prems], of a]
  show ?case by (simp add: countOccurrence_cnt)
qed

lemma fold_countSnippet:
  "countInv m \<Longrightarrow> countInv (fold (countSnippet keys) snippets m)
     \<and> cnt (fold (countSnippet keys) snippets m) k = cnt m k + occurrences keys snippets k"
proof (induction snippets arbitrary: m)
  case Nil
  then show ?case by (simp add: occurrences_def)
next
  case (Cons s snippets)
  have a: "countInv (countSnippet keys s m)" "cnt (countSnippet keys s m) k = cnt m k + count_list (keys s) k"
    using fold_countOccurrence[OF Cons.prems] unfolding countSnippet_def by simp_all
  from Cons.IH[OF a(1)] a(2) show ?case by (simp add: occurrences_def)
qed

lemma emitCounted_props:
  assumes "countInv m" "p \<in> set (emitCounted t m)"
  shows "ptype p = t \<and> frequency p = cnt m (pcontent p) \<and> 2 \<le> frequency p
     \<and> distinct (psnippets p) \<and> length (psnippets p) \<le> frequency p"
proof -
  from assms(2) obtain k c ss ls where e: "(k, (c, ss, ls)) \<in> set m" "2 \<le> c"
      "p = \<lparr> ptype = t, pcontent = k, frequency = c, psnippets = ss, planguages = ls \<rparr>"
    unfolding emitCounted_def by auto
  from assms(1) e(1) have "map_of m k = Some (c, ss, ls)" unfolding countInv_def by simp
  then have "cnt m k = c" by (simp add: cnt_def)
  moreover from assms(1) e(1) have "distinct ss \<and> length ss \<le> c" unfolding countInv_def by auto
  ultimately show ?thesis using e by simp
qed

lemma counted_patterns:
  assumes "p \<in> set (emitCounted t (fold (countSnippet keys) snippets []))"
  shows "ptype p = t \<and> frequency p = occurrences keys snippets (pcontent p) \<and> 2 \<le> frequency p
     \<and> distinct (psnippets p) \<and> length (psnippets p) \<le> frequency p"
proof -
  have i: "countInv []" by (simp add: countInv_def)
  from fold_countSnippet[OF i, of keys snippets "pcontent p"]
  have "countInv (fold (countSnippet keys) snippets [])"
    "cnt (fold (countSnippet keys) snippets []) (pcontent p) = occurrences keys snippets (pcontent p)"
    by (simp_all add: cnt_def)
  with emitCounted_props[OF _ assms] show ?thesis by simp
qed

lemma lcsPair_inv:
  "\<forall>p \<in> set (fst st). ptype p = LCS \<and> frequency p = 2 \<Longrightarrow>
   \<forall>p \<in> set (fst (lcsPair s1 s2 st)). ptype p = LCS \<and> frequency p = 2"
  by (cases st) (auto simp: lcsPair_def Let_def)

lemma fold_lcsPair_inv:
  "\<forall>p \<in> set (fst st). ptype p = LCS \<and> frequency p = 2 \<Longrightarrow>
   \<forall>p \<in> set (fst (fold (\<lambda>j. lcsPair (f j) (g j)) js st)). ptype p = LCS \<and> frequency p = 2"
proof (induction js arbitrary: st)
  case Nil
  then show ?case by simp
next
  case (Cons j js)
  show ?case using Cons.IH[OF lcsPair_inv[OF Cons.prems]] by simp
qed

lemma fold_fold_lcsPair_inv:
  "\<forall>p \<in> set (fst st). ptype p = LCS \<and> frequency p = 2 \<Longrightarrow>
   \<forall>p \<in> set (fst (fold (\<lambda>i. fold (\<lambda>j. lcsPair (f i) (g j)) (h i)) is st)). ptype p = LCS \<and> frequency p = 2"
proof (induction "is" arbitrary: st)
  case Nil
  then show ?case by simp
next
  case (Cons i "is")
  show ?case using Cons.IH[OF fold_lcsPair_inv[OF Cons.prems, of "\<lambda>j. f i" g "h i"]] by simp
qed

lemma lcs_patterns:
  "p \<in> set (extractLCSPatterns snippets) \<Longrightarrow> ptype p = LCS \<and> frequency p = 2"
  unfolding extractLCSPatterns_def
  using fold_fold_lcsPair_inv[of "([], [])" "\<lambda>i. snippets ! i" "\<lambda>j. snippets ! j" "\<lambda>i. [Suc i..<length snippets]" "[0..<length snippets]"]
  by simp

lemma set_rankInsert: "set (rankInsert p qs) = insert p (set qs)"
  by (induction qs) auto

lemma set_fold_rankInsert: "set (fold rankInsert ps qs) = set ps \<union> set qs"
  by (induction ps arbitrary: qs) (auto simp: set_rankInsert)

lemma set_rankPatterns: "set (rankPatterns ps) = set ps"
  by (simp add: rankPatterns_def set_fold_rankInsert)


lemma ids_countOccurrence:
  "ids (countOccurrence key i l m) k = ids m k \<union> (if k = key then {i} else {})"
proof (induction m)
  case Nil
  then show ?case by (simp add: ids_def)
next
  case (Cons e m)
  obtain k' c ss ls where e: "e = (k', (c, ss, ls))" by (metis prod_cases4)
  have sa: "set (setAdd i ss) = insert i (set ss)" by (auto simp: setAdd_def)
  show ?case
  proof (cases "k' = key")
    case True
    then show ?thesis unfolding e ids_def using sa by simp
  next
    case False
    show ?thesis
    proof (cases "k = k'")
      case True
      then show ?thesis using False unfolding e ids_def by simp
    next
      case kk: False
      then have "ids (countOccurrence key i l (e # m)) k = ids (countOccurrence key i l m) k"
        using False unfolding e ids_def by simp
      moreover have "ids (e # m) k = ids m k" using kk unfolding e ids_def by simp
      ultimately show ?thesis using Cons by simp
    qed
  qed
qed

lemma fold_countOccurrence_ids:
  "ids (fold (\<lambda>key. countOccurrence key i l) ks m) k = ids m k \<union> (if k \<in> set ks then {i} else {})"
proof (induction ks arbitrary: m)
  case Nil
  then show ?case by simp
next
  case (Cons a ks)
  show ?case using Cons[of "countOccurrence a i l m"] by (auto simp: ids_countOccurrence)
qed

lemma fold_countSnippet_ids:
  "ids (fold (countSnippet keys) snippets m) k
     = ids m k \<union> {sid s | s. s \<in> set snippets \<and> k \<in> set (keys s)}"
proof (induction snippets arbitrary: m)
  case Nil
  then show ?case by simp
next
  case (Cons s snippets)
  have "ids (countSnippet keys s m) k = ids m k \<union> (if k \<in> set (keys s) then {sid s} else {})"
    unfolding countSnippet_def by (rule fold_countOccurrence_ids)
  then show ?case using Cons[of "countSnippet keys s m"] by auto
qed

lemma emitCounted_ids:
  assumes "countInv m" "p \<in> set (emitCounted t m)"
  shows "set (psnippets p) = ids m (pcontent p)"
proof -
  from assms(2) obtain k c ss ls where e: "(k, (c, ss, ls)) \<in> set m"
      "p = \<lparr> ptype = t, pcontent = k, frequency = c, psnippets = ss, planguages = ls \<rparr>"
    unfolding emitCounted_def by auto
  from assms(1) e(1) have "map_of m k = Some (c, ss, ls)" unfolding countInv_def by simp
  then show ?thesis using e(2) by (simp add: ids_def)
qed

lemma counted_snippets:
  assumes "p \<in> set (emitCounted t (fold (countSnippet keys) snippets []))"
  shows "set (psnippets p) = {sid s | s. s \<in> set snippets \<and> pcontent p \<in> set (keys s)}"
proof -
  have i: "countInv []" by (simp add: countInv_def)
  have "countInv (fold (countSnippet keys) snippets [])"
    using fold_countSnippet[OF i, of keys snippets "pcontent p"] by simp
  from emitCounted_ids[OF this assms]
  have "set (psnippets p) = ids (fold (countSnippet keys) snippets []) (pcontent p)" .
  also have "\<dots> = ids [] (pcontent p) \<union> {sid s | s. s \<in> set snippets \<and> pcontent p \<in> set (keys s)}"
    by (rule fold_countSnippet_ids)
  also have "ids [] (pcontent p) = {}" by (simp add: ids_def)
  finally show ?thesis by simp
qed

lemma count_list_snoc: "count_list (xs @ [x]) k = count_list xs k + (if x = k then 1 else 0)"
  by (induction xs) auto

lemma count_list_map_upt: "count_list (map f [0..<m]) k = card {i. i < m \<and> f i = k}"
proof (induction m)
  case 0
  then show ?case by simp
next
  case (Suc m)
  have fin: "finite {i. i < m \<and> f i = k}" by simp
  have s: "{i. i < Suc m \<and> f i = k} = {i. i < m \<and> f i = k} \<union> (if f m = k then {m} else {})"
    by (auto simp: less_Suc_eq)
  have "card {i. i < Suc m \<and> f i = k} = card {i. i < m \<and> f i = k} + (if f m = k then 1 else 0)"
    unfolding s using fin by (auto simp: card_insert_if)
  then show ?case using Suc by (simp add: count_list_snoc)
qed

lemma ngramKeys_count:
  "count_list (ngramKeys config s) k = windowCount (ngramSize config) (tokens s) k"
proof (cases "ngramSize config \<le> length (tokens s)")
  case True
  have "{i. i < Suc (length (tokens s) - ngramSize config)
          \<and> join '' '' (take (ngramSize config) (drop i (tokens s))) = k}
      = {i. i + ngramSize config \<le> length (tokens s)
          \<and> join '' '' (take (ngramSize config) (drop i (tokens s))) = k}"
    using True by auto
  then show ?thesis
    using True unfolding ngramKeys_def generateNGrams_def windowCount_def
    by (simp add: count_list_map_upt[of "\<lambda>i. join '' '' (take (ngramSize config) (drop i (tokens s)))"] comp_def del: upt_Suc)
next
  case False
  then have "{i. i + ngramSize config \<le> length (tokens s)
          \<and> join '' '' (take (ngramSize config) (drop i (tokens s))) = k} = {}" by auto
  then show ?thesis
    using False unfolding ngramKeys_def generateNGrams_def windowCount_def by simp
qed

lemma ngramKeys_member:
  "k \<in> set (ngramKeys config s) \<longleftrightarrow>
     (\<exists>i. i + ngramSize config \<le> length (tokens s)
          \<and> join '' '' (take (ngramSize config) (drop i (tokens s))) = k)"
proof (cases "ngramSize config \<le> length (tokens s)")
  case True
  have "k \<in> set (ngramKeys config s) \<longleftrightarrow>
      (\<exists>i. i < Suc (length (tokens s) - ngramSize config)
          \<and> join '' '' (take (ngramSize config) (drop i (tokens s))) = k)"
    using True unfolding ngramKeys_def generateNGrams_def by (auto simp del: upt_Suc)
  also have "\<dots> \<longleftrightarrow> (\<exists>i. i + ngramSize config \<le> length (tokens s)
          \<and> join '' '' (take (ngramSize config) (drop i (tokens s))) = k)"
  proof -
    have "i < Suc (length (tokens s) - ngramSize config) \<longleftrightarrow> i + ngramSize config \<le> length (tokens s)" for i
      using True by linarith
    then show ?thesis by simp
  qed
  finally show ?thesis .
next
  case False
  then show ?thesis unfolding ngramKeys_def generateNGrams_def by auto
qed

lemma occurrences_ngram:
  "occurrences (ngramKeys config) snippets k
     = sum_list (map (\<lambda>s. windowCount (ngramSize config) (tokens s) k) snippets)"
  unfolding occurrences_def by (simp add: ngramKeys_count)

text \<open>
  Claim C1, as the code has it. For every pattern the extractor emits: an LCS pattern has
  frequency 2. The frequency of an ngram pattern is the number of windows of
  \<open>ngramSize\<close> consecutive tokens, summed over all snippets, whose text is the pattern's
  content; the frequency of an ast pattern is the number of structural matches, summed
  over all snippets, that equal its content. So a snippet that holds the n-gram or the
  form \<open>k\<close> times adds \<open>k\<close>. The snippet list of an ngram or ast pattern holds exactly the
  ids of the snippets with at least one such window or match, each id once, and is not
  longer than the frequency.
\<close>

theorem extractPatterns_frequency:
  "\<forall>p \<in> set (extractPatterns config structures snippets).
     (ptype p = LCS \<longrightarrow> frequency p = 2)
   \<and> (ptype p = NGram \<longrightarrow>
        frequency p = sum_list (map (\<lambda>s. windowCount (ngramSize config) (tokens s) (pcontent p)) snippets)
      \<and> set (psnippets p) =
          {sid s | s. s \<in> set snippets
             \<and> (\<exists>i. i + ngramSize config \<le> length (tokens s)
                   \<and> join '' '' (take (ngramSize config) (drop i (tokens s))) = pcontent p)})
   \<and> (ptype p = AST \<longrightarrow>
        frequency p = sum_list (map (\<lambda>s. count_list (structures (content s) (language s)) (pcontent p)) snippets)
      \<and> set (psnippets p) =
          {sid s | s. s \<in> set snippets \<and> pcontent p \<in> set (structures (content s) (language s))})
   \<and> (ptype p \<noteq> LCS \<longrightarrow> distinct (psnippets p) \<and> length (psnippets p) \<le> frequency p)"
proof
  fix p assume "p \<in> set (extractPatterns config structures snippets)"
  then consider (n) "p \<in> set (extractNGramPatterns config snippets)"
    | (l) "p \<in> set (extractLCSPatterns snippets)"
    | (a) "p \<in> set (extractASTPatterns structures snippets)"
    unfolding extractPatterns_def set_rankPatterns by auto
  then show "(ptype p = LCS \<longrightarrow> frequency p = 2)
   \<and> (ptype p = NGram \<longrightarrow>
        frequency p = sum_list (map (\<lambda>s. windowCount (ngramSize config) (tokens s) (pcontent p)) snippets)
      \<and> set (psnippets p) =
          {sid s | s. s \<in> set snippets
             \<and> (\<exists>i. i + ngramSize config \<le> length (tokens s)
                   \<and> join '' '' (take (ngramSize config) (drop i (tokens s))) = pcontent p)})
   \<and> (ptype p = AST \<longrightarrow>
        frequency p = sum_list (map (\<lambda>s. count_list (structures (content s) (language s)) (pcontent p)) snippets)
      \<and> set (psnippets p) =
          {sid s | s. s \<in> set snippets \<and> pcontent p \<in> set (structures (content s) (language s))})
   \<and> (ptype p \<noteq> LCS \<longrightarrow> distinct (psnippets p) \<and> length (psnippets p) \<le> frequency p)"
  proof cases
    case n
    note n' = n[unfolded extractNGramPatterns_def]
    from counted_patterns[OF n'] have c: "ptype p = NGram"
      "frequency p = occurrences (ngramKeys config) snippets (pcontent p)"
      "distinct (psnippets p)" "length (psnippets p) \<le> frequency p" by simp_all
    have s: "set (psnippets p) =
          {sid s | s. s \<in> set snippets
             \<and> (\<exists>i. i + ngramSize config \<le> length (tokens s)
                   \<and> join '' '' (take (ngramSize config) (drop i (tokens s))) = pcontent p)}"
      using counted_snippets[OF n'] by (simp add: ngramKeys_member)
    from c(2) have f: "frequency p
        = sum_list (map (\<lambda>s. windowCount (ngramSize config) (tokens s) (pcontent p)) snippets)"
      by (simp add: occurrences_ngram)
    show ?thesis using c(1,3,4) s f by simp
  next
    case l
    from lcs_patterns[OF l] show ?thesis by simp
  next
    case a
    note a' = a[unfolded extractASTPatterns_def]
    from counted_patterns[OF a'] have c: "ptype p = AST"
      "frequency p = occurrences (astKeys structures) snippets (pcontent p)"
      "distinct (psnippets p)" "length (psnippets p) \<le> frequency p" by simp_all
    have s: "set (psnippets p) =
          {sid s | s. s \<in> set snippets \<and> pcontent p \<in> set (structures (content s) (language s))}"
      using counted_snippets[OF a'] by (simp add: astKeys_def)
    from c(2) have f: "frequency p
        = sum_list (map (\<lambda>s. count_list (structures (content s) (language s)) (pcontent p)) snippets)"
      by (simp add: occurrences_def astKeys_def)
    show ?thesis using c(1,3,4) s f by simp
  qed
qed

text \<open>
  The theorem on two snippets: the n-gram \<open>ab cd ef\<close> stands twice in the first and once
  in the second, the control-flow head once in each, and their LCS has four tokens.
\<close>

theorem extractPatterns_frequency_witness:
  "extractPatterns DEFAULT_CONFIG sampleStructures [sampleLong, sampleShort] =
     [\<lparr>ptype = NGram, pcontent = ''ab cd ef'', frequency = 3,
        psnippets = [''s1'', ''s2''], planguages = [''javascript'']\<rparr>,
      \<lparr>ptype = LCS, pcontent = ''if ab cd ef'', frequency = 2,
        psnippets = [''s1'', ''s2''], planguages = [''javascript'', ''javascript'']\<rparr>,
      \<lparr>ptype = NGram, pcontent = ''if ab cd'', frequency = 2,
        psnippets = [''s1'', ''s2''], planguages = [''javascript'']\<rparr>,
      \<lparr>ptype = AST, pcontent = ''if (CONDITION)'', frequency = 2,
        psnippets = [''s1'', ''s2''], planguages = [''javascript'']\<rparr>]
   \<and> sum_list (map (\<lambda>s. windowCount (ngramSize DEFAULT_CONFIG) (tokens s) ''ab cd ef'')
        [sampleLong, sampleShort]) = 3
   \<and> {sid s | s. s \<in> set [sampleLong, sampleShort]
          \<and> (\<exists>i. i + ngramSize DEFAULT_CONFIG \<le> length (tokens s)
                \<and> join '' '' (take (ngramSize DEFAULT_CONFIG) (drop i (tokens s))) = ''ab cd ef'')}
       = {''s1'', ''s2''}
   \<and> sum_list (map (\<lambda>s. count_list (sampleStructures (content s) (language s)) ''if (CONDITION)'')
        [sampleLong, sampleShort]) = 2
   \<and> {sid s | s. s \<in> set [sampleLong, sampleShort]
          \<and> ''if (CONDITION)'' \<in> set (sampleStructures (content s) (language s))}
       = {''s1'', ''s2''}"
proof -
  have e: "extractPatterns DEFAULT_CONFIG sampleStructures [sampleLong, sampleShort] =
     [\<lparr>ptype = NGram, pcontent = ''ab cd ef'', frequency = 3,
        psnippets = [''s1'', ''s2''], planguages = [''javascript'']\<rparr>,
      \<lparr>ptype = LCS, pcontent = ''if ab cd ef'', frequency = 2,
        psnippets = [''s1'', ''s2''], planguages = [''javascript'', ''javascript'']\<rparr>,
      \<lparr>ptype = NGram, pcontent = ''if ab cd'', frequency = 2,
        psnippets = [''s1'', ''s2''], planguages = [''javascript'']\<rparr>,
      \<lparr>ptype = AST, pcontent = ''if (CONDITION)'', frequency = 2,
        psnippets = [''s1'', ''s2''], planguages = [''javascript'']\<rparr>]"
    by code_simp
  note t = extractPatterns_frequency[of DEFAULT_CONFIG sampleStructures "[sampleLong, sampleShort]",
      unfolded e]
  have mn: "\<lparr>ptype = NGram, pcontent = ''ab cd ef'', frequency = 3,
        psnippets = [''s1'', ''s2''], planguages = [''javascript'']\<rparr>
      \<in> set [\<lparr>ptype = NGram, pcontent = ''ab cd ef'', frequency = 3,
        psnippets = [''s1'', ''s2''], planguages = [''javascript'']\<rparr>,
      \<lparr>ptype = LCS, pcontent = ''if ab cd ef'', frequency = 2,
        psnippets = [''s1'', ''s2''], planguages = [''javascript'', ''javascript'']\<rparr>,
      \<lparr>ptype = NGram, pcontent = ''if ab cd'', frequency = 2,
        psnippets = [''s1'', ''s2''], planguages = [''javascript'']\<rparr>,
      \<lparr>ptype = AST, pcontent = ''if (CONDITION)'', frequency = 2,
        psnippets = [''s1'', ''s2''], planguages = [''javascript'']\<rparr>]"
    by simp
  have ma: "\<lparr>ptype = AST, pcontent = ''if (CONDITION)'', frequency = 2,
        psnippets = [''s1'', ''s2''], planguages = [''javascript'']\<rparr>
      \<in> set [\<lparr>ptype = NGram, pcontent = ''ab cd ef'', frequency = 3,
        psnippets = [''s1'', ''s2''], planguages = [''javascript'']\<rparr>,
      \<lparr>ptype = LCS, pcontent = ''if ab cd ef'', frequency = 2,
        psnippets = [''s1'', ''s2''], planguages = [''javascript'', ''javascript'']\<rparr>,
      \<lparr>ptype = NGram, pcontent = ''if ab cd'', frequency = 2,
        psnippets = [''s1'', ''s2''], planguages = [''javascript'']\<rparr>,
      \<lparr>ptype = AST, pcontent = ''if (CONDITION)'', frequency = 2,
        psnippets = [''s1'', ''s2''], planguages = [''javascript'']\<rparr>]"
    by simp
  from bspec[OF t mn] have n1: "sum_list (map (\<lambda>s. windowCount (ngramSize DEFAULT_CONFIG) (tokens s) ''ab cd ef'')
        [sampleLong, sampleShort]) = 3"
    and n2: "{sid s | s. s \<in> set [sampleLong, sampleShort]
          \<and> (\<exists>i. i + ngramSize DEFAULT_CONFIG \<le> length (tokens s)
                \<and> join '' '' (take (ngramSize DEFAULT_CONFIG) (drop i (tokens s))) = ''ab cd ef'')}
       = {''s1'', ''s2''}"
    by simp_all
  from bspec[OF t ma] have a1: "sum_list (map (\<lambda>s. count_list (sampleStructures (content s) (language s)) ''if (CONDITION)'')
        [sampleLong, sampleShort]) = 2"
    and a2: "{sid s | s. s \<in> set [sampleLong, sampleShort]
          \<and> ''if (CONDITION)'' \<in> set (sampleStructures (content s) (language s))}
       = {''s1'', ''s2''}"
    by simp_all
  from e n1 n2 a1 a2 show ?thesis by (intro conjI)
qed

text \<open>
  Claim C1 as stated fails: a snippet that holds the window \<open>ab cd ef\<close> twice yields an
  ngram pattern of frequency 2 whose snippet set has one id.
\<close>

theorem ngram_frequency_counterexample:
  "extractPatterns DEFAULT_CONFIG sampleStructures [sampleRepeated] =
     [\<lparr>ptype = NGram, pcontent = ''ab cd ef'', frequency = 2,
        psnippets = [''s1''], planguages = [''javascript'']\<rparr>]
   \<and> frequency (hd (extractPatterns DEFAULT_CONFIG sampleStructures [sampleRepeated]))
       \<noteq> card (set (psnippets (hd (extractPatterns DEFAULT_CONFIG sampleStructures [sampleRepeated]))))"
proof -
  have e: "extractPatterns DEFAULT_CONFIG sampleStructures [sampleRepeated] =
     [\<lparr>ptype = NGram, pcontent = ''ab cd ef'', frequency = 2,
        psnippets = [''s1''], planguages = [''javascript'']\<rparr>]"
    by code_simp
  show ?thesis unfolding e by simp
qed

section \<open>Verification: language detection\<close>

lemma splitOn_nonempty: "splitOn c s \<noteq> []"
  by (induction s) (auto split: list.splits)

lemma toLowerChar_dot: "toLowerChar x = CHR ''.'' \<longleftrightarrow> x = CHR ''.''"
proof
  assume a: "toLowerChar x = CHR ''.''"
  define n where "n = (of_char x :: nat)"
  show "x = CHR ''.''"
  proof (cases "(65 \<le> n \<and> n \<le> 90) \<or> (192 \<le> n \<and> n \<le> 222 \<and> n \<noteq> 215)")
    case True
    then have "toLowerChar x = char_of (n + 32)"
      unfolding toLowerChar_def n_def Let_def by (rule if_P)
    with a have "char_of (n + 32) = CHR ''.''" by simp
    then have "of_char (char_of (n + 32) :: char) = (of_char (CHR ''.'') :: nat)" by (rule arg_cong)
    then have "(n + 32) mod 256 = 46" unfolding of_char_of by simp
    with True have False by auto
    then show ?thesis ..
  next
    case False
    then have "toLowerChar x = x"
      unfolding toLowerChar_def n_def Let_def by (rule if_not_P)
    with a show ?thesis by simp
  qed
next
  assume "x = CHR ''.''"
  then show "toLowerChar x = CHR ''.''" by (simp add: toLowerChar_def)
qed

lemma splitOn_map:
  assumes "\<And>x. f x = c \<longleftrightarrow> x = c"
  shows "splitOn c (map f s) = map (map f) (splitOn c s)"
proof (induction s)
  case Nil
  then show ?case by simp
next
  case (Cons x s)
  obtain w ws where w: "splitOn c s = w # ws"
    using splitOn_nonempty[of c s] by (cases "splitOn c s") auto
  show ?case using Cons assms w by simp
qed

lemma extension_lower: "last (splitOn CHR ''.'' (toLowerCase f)) = extensionOf f"
proof -
  have "splitOn CHR ''.'' (map toLowerChar f) = map (map toLowerChar) (splitOn CHR ''.'' f)"
    by (rule splitOn_map) (rule toLowerChar_dot)
  then show ?thesis
    unfolding extensionOf_def toLowerCase_def
    using splitOn_nonempty[of "CHR ''.''" f] by (simp add: last_map)
qed

lemma CodeTokenizer_detectLanguage_ext:
  "CodeTokenizer_detectLanguage f = orDefault (getProperty langMap (extensionOf f)) ''unknown''"
  unfolding CodeTokenizer_detectLanguage_def Let_def extension_lower ..

lemma Tokenizer_detectLanguage_ext:
  "Tokenizer_detectLanguage f c = orDefault (getProperty extensions (extensionOf f)) ''text''"
  unfolding Tokenizer_detectLanguage_def Let_def extensionOf_def ..

lemma getProperty_absent:
  "k \<notin> set (map fst literal) \<Longrightarrow> k \<notin> set objectPrototypeNames \<Longrightarrow> getProperty literal k = None"
proof -
  assume a: "k \<notin> set (map fst literal)" and b: "k \<notin> set objectPrototypeNames"
  from a have "map_of literal k = None" by (simp add: map_of_eq_None_iff)
  with b show ?thesis unfolding getProperty_def by simp
qed

text \<open>
  Claim C9, as the code has it. For every filename whose extension (the lowercased text
  after the last dot) is neither a key of the extension table nor the name of a member
  that every object inherits, \<open>CodeTokenizer.detectLanguage\<close> returns \<open>unknown\<close> and the
  library's \<open>Tokenizer.detectLanguage\<close> returns \<open>text\<close>; both results depend on the
  extension of the filename only, never on the content.
\<close>

theorem detectLanguage_unknown_extension:
  "(extensionOf fname \<notin> set (map fst langMap) \<and> extensionOf fname \<notin> set objectPrototypeNames
      \<longrightarrow> CodeTokenizer_detectLanguage fname = Str ''unknown'')
   \<and> (extensionOf fname \<notin> set (map fst extensions) \<and> extensionOf fname \<notin> set objectPrototypeNames
      \<longrightarrow> Tokenizer_detectLanguage fname fcontent = Str ''text'')
   \<and> (extensionOf fname = extensionOf fname'
      \<longrightarrow> CodeTokenizer_detectLanguage fname = CodeTokenizer_detectLanguage fname'
        \<and> Tokenizer_detectLanguage fname fcontent = Tokenizer_detectLanguage fname' fcontent')"
proof (intro conjI impI)
  assume "extensionOf fname \<notin> set (map fst langMap) \<and> extensionOf fname \<notin> set objectPrototypeNames"
  then have "getProperty langMap (extensionOf fname) = None" by (simp add: getProperty_absent)
  then show "CodeTokenizer_detectLanguage fname = Str ''unknown''"
    by (simp add: CodeTokenizer_detectLanguage_ext orDefault_def)
next
  assume "extensionOf fname \<notin> set (map fst extensions) \<and> extensionOf fname \<notin> set objectPrototypeNames"
  then have "getProperty extensions (extensionOf fname) = None" by (simp add: getProperty_absent)
  then show "Tokenizer_detectLanguage fname fcontent = Str ''text''"
    by (simp add: Tokenizer_detectLanguage_ext orDefault_def)
next
  assume "extensionOf fname = extensionOf fname'"
  then show "CodeTokenizer_detectLanguage fname = CodeTokenizer_detectLanguage fname'"
    by (simp add: CodeTokenizer_detectLanguage_ext)
next
  assume "extensionOf fname = extensionOf fname'"
  then show "Tokenizer_detectLanguage fname fcontent = Tokenizer_detectLanguage fname' fcontent'"
    by (simp add: Tokenizer_detectLanguage_ext)
qed

text \<open>
  The theorem at \<open>notes.xyz\<close>, and at two spellings of one extension with different
  content.
\<close>

theorem detectLanguage_unknown_extension_witness:
  "CodeTokenizer_detectLanguage ''notes.xyz'' = Str ''unknown''
   \<and> Tokenizer_detectLanguage ''notes.xyz'' (Some ''def f(): pass'') = Str ''text''
   \<and> CodeTokenizer_detectLanguage ''a.PY'' = CodeTokenizer_detectLanguage ''dir.d/b.py''
   \<and> Tokenizer_detectLanguage ''a.PY'' None = Tokenizer_detectLanguage ''dir.d/b.py'' (Some ''int main;'')
   \<and> Tokenizer_detectLanguage ''a.PY'' None = Str ''python''"
proof -
  have x: "extensionOf ''notes.xyz'' = ''xyz''" by code_simp
  have p: "extensionOf ''a.PY'' = ''py''" "extensionOf ''dir.d/b.py'' = ''py''" by code_simp+
  have n: "''xyz'' \<notin> set (map fst langMap)" "''xyz'' \<notin> set (map fst extensions)"
    "''xyz'' \<notin> set objectPrototypeNames"
    by (simp_all add: langMap_def extensions_def objectPrototypeNames_def)
  have v: "Tokenizer_detectLanguage ''a.PY'' None = Str ''python''" by code_simp
  from detectLanguage_unknown_extension[of "''notes.xyz''" "Some ''def f(): pass''" "''notes.xyz''" None]
  have a: "CodeTokenizer_detectLanguage ''notes.xyz'' = Str ''unknown''"
    "Tokenizer_detectLanguage ''notes.xyz'' (Some ''def f(): pass'') = Str ''text''"
    unfolding x using n by simp_all
  from detectLanguage_unknown_extension[of "''a.PY''" None "''dir.d/b.py''" "Some ''int main;''"]
  have b: "CodeTokenizer_detectLanguage ''a.PY'' = CodeTokenizer_detectLanguage ''dir.d/b.py''"
    "Tokenizer_detectLanguage ''a.PY'' None = Tokenizer_detectLanguage ''dir.d/b.py'' (Some ''int main;'')"
    unfolding p by simp_all
  from a b v show ?thesis by simp
qed

text \<open>
  Claim C9 as stated fails for the library's detector: an extension outside the table
  gives the tag \<open>text\<close>, not \<open>unknown\<close>.
\<close>

theorem detectLanguage_text_counterexample:
  "Tokenizer_detectLanguage ''notes.xyz'' None = Str ''text''
   \<and> Tokenizer_detectLanguage ''notes.xyz'' None \<noteq> Str ''unknown''"
proof -
  have "Tokenizer_detectLanguage ''notes.xyz'' None = Str ''text''" by code_simp
  then show ?thesis by simp
qed

section \<open>Verification: reading a log back\<close>

lemma parseAll_Some: "map parse ls = map Some rs \<Longrightarrow> parseAll parse ls = Some rs"
  by (induction ls arbitrary: rs) auto

lemma parseAll_None: "l \<in> set ls \<Longrightarrow> parse l = None \<Longrightarrow> parseAll parse ls = None"
  by (induction ls) (auto split: option.splits)

text \<open>
  Claim C3, as the code has it. Reading a log back never throws. When every kept line
  of the log (non-blank for \<open>readSnippets\<close>, \<open>readClusters\<close> and \<open>readPatterns\<close>; of
  length above zero, after trimming the whole content, for \<open>loadJSONL\<close>) is well-formed,
  the result is the list of its records in insertion order. When one kept line is
  malformed, the result is the empty list: the well-formed records are dropped with
  it. A file that cannot be read gives the empty list too.
\<close>

theorem scan_all_or_nothing:
  "(map parse (readLines fcontent) = map Some rs \<longrightarrow> readSnippets parse (Some fcontent) = rs)
   \<and> (l \<in> set (readLines fcontent) \<and> parse l = None \<longrightarrow> readSnippets parse (Some fcontent) = [])
   \<and> (map parse (loadLines fcontent) = map Some rs' \<longrightarrow> loadJSONL parse (Some fcontent) = rs')
   \<and> (l' \<in> set (loadLines fcontent) \<and> parse l' = None \<longrightarrow> loadJSONL parse (Some fcontent) = [])
   \<and> readSnippets parse None = [] \<and> loadJSONL parse None = []
   \<and> readClusters parse file = readSnippets parse file \<and> readPatterns parse file = readSnippets parse file"
  by (auto simp: readSnippets_def loadJSONL_def readClusters_def readPatterns_def parseAll_Some parseAll_None)

text \<open>
  The theorem on a log of two well-formed lines, and on the same log with a malformed
  line between them.
\<close>

theorem scan_all_or_nothing_witness:
  "readSnippets sampleParse (Some sampleCleanLog) = [1, 2]
   \<and> readSnippets sampleParse (Some sampleLog) = []
   \<and> loadJSONL sampleParse (Some sampleCleanLog) = [1, 2]
   \<and> loadJSONL sampleParse (Some sampleLog) = []"
proof -
  have c: "readLines sampleCleanLog = [''1'', ''2'']" "loadLines sampleCleanLog = [''1'', ''2'']" by code_simp+
  have b: "readLines sampleLog = [''1'', ''{bad'', ''2'']" "loadLines sampleLog = [''1'', ''{bad'', ''2'']" by code_simp+
  have p: "sampleParse ''1'' = Some 1" "sampleParse ''2'' = Some 2" "sampleParse ''{bad'' = None"
    by (simp_all add: sampleParse_def)
  from scan_all_or_nothing[of sampleParse sampleCleanLog "[1, 2]" "''{bad''" "[1, 2]" "''{bad''" None]
  have 1: "readSnippets sampleParse (Some sampleCleanLog) = [1, 2]" "loadJSONL sampleParse (Some sampleCleanLog) = [1, 2]"
    unfolding c using p by simp_all
  from scan_all_or_nothing[of sampleParse sampleLog "[]" "''{bad''" "[]" "''{bad''" None]
  have 2: "readSnippets sampleParse (Some sampleLog) = []" "loadJSONL sampleParse (Some sampleLog) = []"
    unfolding b using p by simp_all
  from 1 2 show ?thesis by simp
qed

text \<open>
  Claim C3 as stated fails: the log \<open>1\<close>, \<open>{bad\<close>, \<open>2\<close> holds two well-formed lines and one
  malformed line, and scanning returns no record instead of the two.
\<close>

theorem scan_malformed_line_counterexample:
  "readSnippets sampleParse (Some sampleLog) = [] \<and> loadJSONL sampleParse (Some sampleLog) = []
   \<and> readSnippets sampleParse (Some sampleLog) \<noteq> [1, 2]
   \<and> readLines sampleLog = [''1'', ''{bad'', ''2''] \<and> sampleParse ''1'' = Some 1 \<and> sampleParse ''2'' = Some 2
   \<and> sampleParse ''{bad'' = None"
  by code_simp

section \<open>Verification: MinHash signatures\<close>

lemma fold_minAt:
  "k \<le> length hs \<Longrightarrow> k \<le> length sig \<Longrightarrow>
   fold (minAt hs sh) [0..<k] sig =
     map (\<lambda>i. min (sig ! i) (enat (hashFunction (hs ! i) sh))) [0..<k] @ drop k sig"
proof (induction k)
  case 0
  then show ?case by simp
next
  case (Suc k)
  then have IH: "fold (minAt hs sh) [0..<k] sig =
     map (\<lambda>i. min (sig ! i) (enat (hashFunction (hs ! i) sh))) [0..<k] @ drop k sig" by simp
  have k: "k < length sig" using Suc.prems by simp
  have d: "drop k sig = sig ! k # drop (Suc k) sig" using k by (simp add: Cons_nth_drop_Suc)
  have "fold (minAt hs sh) [0..<Suc k] sig = minAt hs sh k (fold (minAt hs sh) [0..<k] sig)" by simp
  also have "\<dots> = (map (\<lambda>i. min (sig ! i) (enat (hashFunction (hs ! i) sh))) [0..<k] @ drop k sig)
      [k := min (sig ! k) (enat (hashFunction (hs ! k) sh))]"
    unfolding IH minAt_def using k by (simp add: nth_append)
  also have "\<dots> = map (\<lambda>i. min (sig ! i) (enat (hashFunction (hs ! i) sh))) [0..<k]
      @ (drop k sig)[0 := min (sig ! k) (enat (hashFunction (hs ! k) sh))]"
    by (simp add: list_update_append)
  also have "\<dots> = map (\<lambda>i. min (sig ! i) (enat (hashFunction (hs ! i) sh))) [0..<Suc k] @ drop (Suc k) sig"
    unfolding d by simp
  finally show ?case .
qed

lemma minShingle_map:
  "length sig = length hs \<Longrightarrow>
   minShingle hs sh sig = map (\<lambda>i. min (sig ! i) (enat (hashFunction (hs ! i) sh))) [0..<length hs]"
  unfolding minShingle_def using fold_minAt[of "length hs" hs sig sh] by simp

lemma minShingle_length: "length sig = length hs \<Longrightarrow> length (minShingle hs sh sig) = length hs"
  by (simp add: minShingle_map)

lemma minShingle_nth:
  "length sig = length hs \<Longrightarrow> i < length hs \<Longrightarrow>
   minShingle hs sh sig ! i = min (sig ! i) (enat (hashFunction (hs ! i) sh))"
  by (simp add: minShingle_map)

lemma fold_minShingle:
  "length sig = length hs \<Longrightarrow>
   length (fold (minShingle hs) shs sig) = length hs
   \<and> (\<forall>i < length hs. fold (minShingle hs) shs sig ! i
        = fold (\<lambda>sh m. min m (enat (hashFunction (hs ! i) sh))) shs (sig ! i))"
proof (induction shs arbitrary: sig)
  case Nil
  then show ?case by simp
next
  case (Cons sh shs)
  have l: "length (minShingle hs sh sig) = length hs" using Cons.prems by (rule minShingle_length)
  from Cons.IH[OF l] show ?case using minShingle_nth[OF Cons.prems] by simp
qed

lemma fold_min_Min:
  "fold (\<lambda>sh m. min m (enat (f sh))) shs m0 =
     (if shs = [] then m0 else min m0 (enat (Min (f ` set shs))))"
proof (induction shs arbitrary: m0)
  case Nil
  then show ?case by simp
next
  case (Cons sh shs)
  show ?case
  proof (cases "shs = []")
    case True
    then show ?thesis by simp
  next
    case False
    then have "fold (\<lambda>sh m. min m (enat (f sh))) (sh # shs) m0
        = min (min m0 (enat (f sh))) (enat (Min (f ` set shs)))"
      using Cons.IH[of "min m0 (enat (f sh))"] by simp
    also have "\<dots> = min m0 (enat (min (f sh) (Min (f ` set shs))))"
      by (simp add: min.assoc min_enat_simps)
    also have "min (f sh) (Min (f ` set shs)) = Min (f ` set (sh # shs))"
      using False by simp
    finally show ?thesis by simp
  qed
qed

lemma generateSignature_nth:
  assumes "i < length (hashFunctions this)"
  shows "signature (generateSignature this snippet) ! i =
     (let shingles = generateShingles (tokenizeC this (contentC snippet) (languageC snippet)) 3
      in if shingles = [] then \<infinity> else enat (Min (hashFunction (hashFunctions this ! i) ` set shingles)))"
proof -
  let ?hs = "hashFunctions this"
  let ?shs = "generateShingles (tokenizeC this (contentC snippet) (languageC snippet)) 3"
  have l: "length (replicate (length ?hs) (\<infinity>::enat)) = length ?hs" by simp
  from fold_minShingle[OF l, of ?shs] assms
  have "fold (minShingle ?hs) ?shs (replicate (length ?hs) \<infinity>) ! i
      = fold (\<lambda>sh m. min m (enat (hashFunction (?hs ! i) sh))) ?shs \<infinity>"
    by simp
  then show ?thesis
    unfolding generateSignature_def Let_def by (simp add: fold_min_Min)
qed

lemma generateSignature_length:
  "length (signature (generateSignature this snippet)) = length (hashFunctions this)"
proof -
  have l: "length (replicate (length (hashFunctions this)) (\<infinity>::enat)) = length (hashFunctions this)" by simp
  from fold_minShingle[OF l] show ?thesis unfolding generateSignature_def Let_def by simp
qed

lemma set_newSet: "set (newSet xs) = set xs"
proof -
  have "set (fold setAdd xs ys) = set xs \<union> set ys" for ys :: "'a list"
    by (induction xs arbitrary: ys) (auto simp: setAdd_def)
  then show ?thesis by (simp add: newSet_def)
qed

lemma newSet_Nil_iff: "newSet xs = [] \<longleftrightarrow> xs = []"
  using set_newSet[of xs] by (metis set_empty)

lemma minHashOver_Min:
  "minHashOver h ts = (if ts = [] then \<infinity> else enat (Min (hashFunction h ` set ts)))"
proof -
  have "(\<lambda>tok minHash. if enat (hashFunction h tok) < minHash then enat (hashFunction h tok) else minHash)
      = (\<lambda>tok m. min m (enat (hashFunction h tok)))"
    by (intro ext) (auto simp: min_def)
  then show ?thesis unfolding minHashOver_def by (simp add: fold_min_Min)
qed

lemma computeMinHash_nth:
  assumes "i < length (lshHashFunctions this)"
  shows "computeMinHash this toks ! i =
     (if toks = [] then 0 else Min (hashFunction (lshHashFunctions this ! i) ` set toks))"
  using assms unfolding computeMinHash_def
  by (simp add: minHashOver_Min newSet_Nil_iff set_newSet)

lemma generateShingles_set:
  "set (generateShingles toks 3) =
     {join '' '' [toks ! i, toks ! (i + 1), toks ! (i + 2)] | i. i + 3 \<le> length toks}"
proof -
  have t: "take 3 (drop i toks) = [toks ! i, toks ! (i + 1), toks ! (i + 2)]" if "i + 3 \<le> length toks" for i
  proof -
    have "drop i toks = toks ! i # toks ! (i + 1) # toks ! (i + 2) # drop (i + 3) toks"
      using that by (simp add: Cons_nth_drop_Suc[symmetric] numeral_3_eq_3)
    then show ?thesis by simp
  qed
  show ?thesis
  proof (cases "3 \<le> length toks")
    case True
    have "set (generateShingles toks 3) = (\<lambda>i. join '' '' (take 3 (drop i toks))) ` {0..<Suc (length toks - 3)}"
      using True unfolding generateShingles_def by (simp del: upt_Suc)
    also have "\<dots> = {join '' '' [toks ! i, toks ! (i + 1), toks ! (i + 2)] | i. i + 3 \<le> length toks}"
    proof (intro set_eqI iffI)
      fix x assume "x \<in> (\<lambda>i. join '' '' (take 3 (drop i toks))) ` {0..<Suc (length toks - 3)}"
      then obtain i where i0: "i < Suc (length toks - 3)" "x = join '' '' (take 3 (drop i toks))"
        by auto
      from i0(1) True have "i + 3 \<le> length toks" by linarith
      with i0(2) have i: "i + 3 \<le> length toks" "x = join '' '' (take 3 (drop i toks))" by simp_all
      then show "x \<in> {join '' '' [toks ! i, toks ! (i + 1), toks ! (i + 2)] | i. i + 3 \<le> length toks}"
        using t[OF i(1)] by auto
    next
      fix x assume "x \<in> {join '' '' [toks ! i, toks ! (i + 1), toks ! (i + 2)] | i. i + 3 \<le> length toks}"
      then obtain i where i: "i + 3 \<le> length toks" "x = join '' '' [toks ! i, toks ! (i + 1), toks ! (i + 2)]"
        by auto
      have "i \<in> {0..<Suc (length toks - 3)}" using i(1) by auto
      then show "x \<in> (\<lambda>i. join '' '' (take 3 (drop i toks))) ` {0..<Suc (length toks - 3)}"
        using t[OF i(1)] i(2) by (metis (mono_tags, lifting) image_eqI)
    qed
    finally show ?thesis .
  next
    case False
    then show ?thesis unfolding generateShingles_def by auto
  qed
qed

lemma sampleClusterer_family: "hashFunctions sampleClusterer = [(1, 0), (2, 1)]"
  by (simp add: sampleClusterer_def newMinHashClusterer_def generateHashFunctions_def sampleDraws_def upt_rec)

lemma sampleLSH_family: "lshHashFunctions sampleLSH = [(1, 0), (2, 1)]"
  by (simp add: sampleLSH_def newMinHashLSH_def generateHashFunctions_def sampleDraws_def upt_rec)

lemma sample_hashes:
  "hashFunction (1, 0) ''ab'' = 3105" "hashFunction (1, 0) ''cd'' = 3169" "hashFunction (1, 0) ''ef'' = 3233"
  "hashFunction (1, 0) ''ab cd ef'' = 1487984900" "hashFunction (1, 0) ''cd ef gh'' = 308068703"
  "hashFunction (2, 1) ''ab'' = 6211"
  "hashFunction (Suc 0, 0) ''ab'' = 3105" "hashFunction (Suc 0, 0) ''cd'' = 3169" "hashFunction (Suc 0, 0) ''ef'' = 3233"
  "hashFunction (Suc 0, 0) ''ab cd ef'' = 1487984900" "hashFunction (Suc 0, 0) ''cd ef gh'' = 308068703"
  "hashFunction (2, Suc 0) ''ab'' = 6211"
  by (simp_all add: hashFunction_def poly31_def)

text \<open>
  Claim C4, as the code has it. \<open>generateSignature\<close> computes the signature over the
  3-token contiguous shingles of the snippet's tokens, each the three tokens joined by a
  blank: position \<open>i\<close> is the minimum of hash function \<open>i\<close> over the shingle set
  (\<open>Infinity\<close> when there is no shingle). The library's \<open>computeMinHash\<close> computes it over
  the set of the single tokens instead: position \<open>i\<close> is the minimum of hash function \<open>i\<close>
  over the tokens (0 when there is no token).
\<close>

theorem signature_minimum:
  "(i < length (hashFunctions this) \<longrightarrow>
      signature (generateSignature this snippet) ! i =
        (if generateShingles (tokenizeC this (contentC snippet) (languageC snippet)) 3 = [] then \<infinity>
         else enat (Min (hashFunction (hashFunctions this ! i)
                ` set (generateShingles (tokenizeC this (contentC snippet) (languageC snippet)) 3)))))
   \<and> set (generateShingles toks 3) =
       {join '' '' [toks ! j, toks ! (j + 1), toks ! (j + 2)] | j. j + 3 \<le> length toks}
   \<and> (i < length (lshHashFunctions lsh) \<longrightarrow>
      computeMinHash lsh toks ! i =
        (if toks = [] then 0 else Min (hashFunction (lshHashFunctions lsh ! i) ` set toks)))"
  using generateSignature_nth[of i this snippet] generateShingles_set[of toks] computeMinHash_nth[of i lsh toks]
  by (simp add: Let_def)

text \<open>
  The theorem at position 0 for the tokens \<open>ab cd ef gh\<close> (two shingles) and for
  \<open>computeMinHash\<close> on \<open>ab cd ef\<close>.
\<close>

theorem signature_minimum_witness:
  "signature (generateSignature sampleClusterer (sampleSnippetC ''s1'' ''ab cd ef gh'')) ! 0 = enat 308068703
   \<and> generateShingles [''ab'', ''cd'', ''ef'', ''gh''] 3 = [''ab cd ef'', ''cd ef gh'']
   \<and> computeMinHash sampleLSH [''ab'', ''cd'', ''ef''] ! 0 = 3105"
proof -
  have sh: "generateShingles [''ab'', ''cd'', ''ef'', ''gh''] 3 = [''ab cd ef'', ''cd ef gh'']"
    by code_simp
  have tk: "tokenizeC sampleClusterer (contentC (sampleSnippetC ''s1'' ''ab cd ef gh''))
      (languageC (sampleSnippetC ''s1'' ''ab cd ef gh'')) = [''ab'', ''cd'', ''ef'', ''gh'']"
    by (simp add: sampleClusterer_def newMinHashClusterer_def sampleSnippetC_def sampleTokenizerC_def)
  from signature_minimum[of 0 sampleClusterer "sampleSnippetC ''s1'' ''ab cd ef gh''" "[]" sampleLSH]
  have a: "signature (generateSignature sampleClusterer (sampleSnippetC ''s1'' ''ab cd ef gh'')) ! 0 = enat 308068703"
    unfolding tk sh sampleClusterer_family by (simp add: sample_hashes)
  from signature_minimum[of 0 sampleClusterer "sampleSnippetC ''s1'' ''ab cd ef gh''" "[''ab'', ''cd'', ''ef'']" sampleLSH]
  have b: "computeMinHash sampleLSH [''ab'', ''cd'', ''ef''] ! 0 = 3105"
    unfolding sampleLSH_family by (simp add: sample_hashes)
  from a sh b show ?thesis by simp
qed

text \<open>
  Claim C4 as stated fails for \<open>computeMinHash\<close>: on the tokens \<open>ab cd ef\<close> the only
  shingle is \<open>ab cd ef\<close>, whose first hash is 1487984900, and position 0 of the signature
  is 3105, the hash of the token \<open>ab\<close>.
\<close>

theorem computeMinHash_tokens_counterexample:
  "computeMinHash sampleLSH [''ab'', ''cd'', ''ef''] = [3105, 6211]
   \<and> generateShingles [''ab'', ''cd'', ''ef''] 3 = [''ab cd ef'']
   \<and> hashFunction (lshHashFunctions sampleLSH ! 0) ''ab cd ef'' = 1487984900
   \<and> computeMinHash sampleLSH [''ab'', ''cd'', ''ef''] ! 0
       \<noteq> Min (hashFunction (lshHashFunctions sampleLSH ! 0) ` set (generateShingles [''ab'', ''cd'', ''ef''] 3))"
proof -
  have sh: "generateShingles [''ab'', ''cd'', ''ef''] 3 = [''ab cd ef'']" by code_simp
  have c: "computeMinHash sampleLSH [''ab'', ''cd'', ''ef''] = [3105, 6211]"
    unfolding computeMinHash_def sampleLSH_family
    by (simp add: minHashOver_Min set_newSet newSet_Nil_iff hashFunction_def poly31_def)
  show ?thesis unfolding sh c sampleLSH_family by (simp add: sample_hashes)
qed

lemma generateHashFunctions_length: "length (generateHashFunctions draws n) = n"
  by (simp add: generateHashFunctions_def)

lemma generateHashFunctions_nth: "i < n \<Longrightarrow> generateHashFunctions draws n ! i = draws i"
  by (simp add: generateHashFunctions_def)

lemma generateShingles_short: "length toks < 3 \<Longrightarrow> generateShingles toks 3 = []"
  by (simp add: generateShingles_def)

lemma generateSignature_short:
  "length (tokenizeC this (contentC snippet) (languageC snippet)) < 3 \<Longrightarrow>
   signature (generateSignature this snippet) = replicate (length (hashFunctions this)) \<infinity>"
  unfolding generateSignature_def Let_def by (simp add: generateShingles_short)

lemma computeMinHash_length: "length (computeMinHash this toks) = length (lshHashFunctions this)"
  by (simp add: computeMinHash_def)

lemma computeMinHash_empty: "computeMinHash this [] = replicate (length (lshHashFunctions this)) 0"
  by (simp add: computeMinHash_def newSet_def minHashOver_def map_replicate_const)

lemma computeMinHash_member:
  assumes "toks \<noteq> []" "i < length (lshHashFunctions this)"
  shows "computeMinHash this toks ! i \<in> hashFunction (lshHashFunctions this ! i) ` set toks"
proof -
  have "Min (hashFunction (lshHashFunctions this ! i) ` set toks) \<in> hashFunction (lshHashFunctions this ! i) ` set toks"
    using assms(1) by (intro Min_in) simp_all
  then show ?thesis using computeMinHash_nth[OF assms(2), of toks] assms(1) by simp
qed

text \<open>
  Claim C8, as the code has it. Signature generation is total. The signature that
  \<open>generateSignature\<close> returns has length \<open>bands \<times> rows\<close>, and when the snippet has fewer
  than 3 tokens every entry is the sentinel \<open>Infinity\<close>. The signature that the library's
  \<open>computeMinHash\<close> returns has length \<open>bands \<times> rows\<close> too; every entry is the sentinel 0
  when the token list is empty, and for a non-empty token list, also one of one or two
  tokens, every entry is the hash of one of the tokens.
\<close>

theorem signature_length_sentinel:
  "length (signature (generateSignature (newMinHashClusterer draws tk cfg) snippet))
     = minhashBands cfg * minhashRows cfg
   \<and> (length (tk (contentC snippet) (languageC snippet)) < 3 \<longrightarrow>
        signature (generateSignature (newMinHashClusterer draws tk cfg) snippet)
          = replicate (minhashBands cfg * minhashRows cfg) \<infinity>)
   \<and> length (computeMinHash (newMinHashLSH draws lcfg) toks) = minHashBands lcfg * minHashRows lcfg
   \<and> (toks = [] \<longrightarrow>
        computeMinHash (newMinHashLSH draws lcfg) toks = replicate (minHashBands lcfg * minHashRows lcfg) 0)
   \<and> (toks \<noteq> [] \<and> i < minHashBands lcfg * minHashRows lcfg \<longrightarrow>
        computeMinHash (newMinHashLSH draws lcfg) toks ! i \<in> hashFunction (draws i) ` set toks)"
proof (intro conjI impI)
  show "length (signature (generateSignature (newMinHashClusterer draws tk cfg) snippet))
     = minhashBands cfg * minhashRows cfg"
    by (simp add: generateSignature_length newMinHashClusterer_def generateHashFunctions_length)
next
  assume "length (tk (contentC snippet) (languageC snippet)) < 3"
  then have "length (tokenizeC (newMinHashClusterer draws tk cfg) (contentC snippet) (languageC snippet)) < 3"
    by (simp add: newMinHashClusterer_def)
  from generateSignature_short[OF this]
  show "signature (generateSignature (newMinHashClusterer draws tk cfg) snippet)
          = replicate (minhashBands cfg * minhashRows cfg) \<infinity>"
    by (simp add: newMinHashClusterer_def generateHashFunctions_length)
next
  show "length (computeMinHash (newMinHashLSH draws lcfg) toks) = minHashBands lcfg * minHashRows lcfg"
    by (simp add: computeMinHash_length newMinHashLSH_def generateHashFunctions_length)
next
  assume "toks = []"
  then show "computeMinHash (newMinHashLSH draws lcfg) toks = replicate (minHashBands lcfg * minHashRows lcfg) 0"
    by (simp add: computeMinHash_empty newMinHashLSH_def generateHashFunctions_length)
next
  assume a: "toks \<noteq> [] \<and> i < minHashBands lcfg * minHashRows lcfg"
  then have i: "i < length (lshHashFunctions (newMinHashLSH draws lcfg))"
    by (simp add: newMinHashLSH_def generateHashFunctions_length)
  have "lshHashFunctions (newMinHashLSH draws lcfg) ! i = draws i"
    using a by (simp add: newMinHashLSH_def generateHashFunctions_nth)
  with computeMinHash_member[OF _ i, of toks] a
  show "computeMinHash (newMinHashLSH draws lcfg) toks ! i \<in> hashFunction (draws i) ` set toks"
    by simp
qed

text \<open>
  The theorem for a snippet of two tokens, for the empty token list, and for one
  token.
\<close>

theorem signature_length_sentinel_witness:
  "signature (generateSignature sampleClusterer (sampleSnippetC ''s2'' ''ab cd'')) = [\<infinity>, \<infinity>]
   \<and> computeMinHash sampleLSH [] = [0, 0]
   \<and> computeMinHash sampleLSH [''ab''] ! 1 = 6211"
proof -
  have tk: "length (sampleTokenizerC (contentC (sampleSnippetC ''s2'' ''ab cd'')) (languageC (sampleSnippetC ''s2'' ''ab cd''))) < 3"
    by (simp add: sampleSnippetC_def sampleTokenizerC_def)
  have r: "replicate (2 * 1) x = [x, x]" for x :: 'a
    by (simp add: numeral_2_eq_2)
  from signature_length_sentinel[of sampleDraws sampleTokenizerC
      "\<lparr> minhashBands = 2, minhashRows = 1, similarityThresholdC = 7 / 10, minClusterSize = 2 \<rparr>"
      "sampleSnippetC ''s2'' ''ab cd''" "DEFAULT_CONFIG\<lparr> minHashBands := 2, minHashRows := 1 \<rparr>" "[]" 0] tk
  have a: "signature (generateSignature sampleClusterer (sampleSnippetC ''s2'' ''ab cd'')) = [\<infinity>, \<infinity>]"
    "computeMinHash sampleLSH [] = [0, 0]"
    unfolding sampleClusterer_def[symmetric] sampleLSH_def[symmetric] by (simp_all add: numeral_2_eq_2)
  from signature_length_sentinel[of sampleDraws sampleTokenizerC
      "\<lparr> minhashBands = 2, minhashRows = 1, similarityThresholdC = 7 / 10, minClusterSize = 2 \<rparr>"
      "sampleSnippetC ''s2'' ''ab cd''" "DEFAULT_CONFIG\<lparr> minHashBands := 2, minHashRows := 1 \<rparr>" "[''ab'']" 1]
  have b: "computeMinHash sampleLSH [''ab''] ! 1 = 6211"
    unfolding sampleLSH_def[symmetric] by (simp add: sampleDraws_def hashFunction_def poly31_def)
  from a b show ?thesis by simp
qed

text \<open>
  Claim C8 as stated fails for \<open>computeMinHash\<close>: a list of one token has fewer than 3
  tokens, and the signature holds the token's hashes, not the sentinel.
\<close>

theorem computeMinHash_short_counterexample:
  "length [''ab''] < (3::nat) \<and> computeMinHash sampleLSH [''ab''] = [3105, 6211]
   \<and> computeMinHash sampleLSH [''ab''] \<noteq> [0, 0]"
proof -
  have c: "computeMinHash sampleLSH [''ab''] = [3105, 6211]"
    unfolding computeMinHash_def sampleLSH_family
    by (simp add: minHashOver_Min set_newSet newSet_Nil_iff hashFunction_def poly31_def)
  show ?thesis unfolding c by simp
qed

section \<open>The tokenizer: normalising twice\<close>





















lemma collapseWhitespace_hd:
  "collapseWhitespace False (y # ys) = (if isWhiteSpace y then CHR '' '' else y) # collapseWhitespace (isWhiteSpace y) ys"
  by simp








section \<open>Verification: the size cut-off of ingestion\<close>




section \<open>Clusters: centroid and size\<close>


subsection \<open>The command line tree\<close>







subsection \<open>The library\<close>





















end
